theory Spec2Isabelle
  imports Complex_Main
begin

section \<open>Numeric model\<close>

text \<open>
  The module \<^verbatim>\<open>pydune/math.py\<close> works on numpy arrays of float64. A finite float is
  modelled by the real number it stands for and arithmetic on finite floats is exact.
  A \<open>float\<close> is a \<open>real option\<close>: \<open>None\<close> is a value that is not a finite number
  (NaN, or the result of a division by zero); it propagates through arithmetic as NaN
  does, and every comparison with it is false.
\<close>

type_synonym float = "real option"

definition fadd :: "float \<Rightarrow> float \<Rightarrow> float" where
  "fadd a b = (case a of None \<Rightarrow> None | Some x \<Rightarrow> (case b of None \<Rightarrow> None | Some y \<Rightarrow> Some (x + y)))"

definition fmul :: "float \<Rightarrow> float \<Rightarrow> float" where
  "fmul a b = (case a of None \<Rightarrow> None | Some x \<Rightarrow> (case b of None \<Rightarrow> None | Some y \<Rightarrow> Some (x * y)))"

definition fdiv :: "float \<Rightarrow> float \<Rightarrow> float" where
  "fdiv a b = (case a of None \<Rightarrow> None | Some x \<Rightarrow>
     (case b of None \<Rightarrow> None | Some y \<Rightarrow> if y = 0 then None else Some (x / y)))"

text \<open>\<^verbatim>\<open>ndarray.sum()\<close> of a one-dimensional array.\<close>

definition fsum :: "float list \<Rightarrow> float" where
  "fsum xs = foldr fadd xs (Some 0)"

text \<open>\<^verbatim>\<open>np.mean\<close> of a one-dimensional array of finite numbers; the mean of an empty
  array is NaN.\<close>

definition np_mean :: "real list \<Rightarrow> float" where
  "np_mean xs = fdiv (Some (sum_list xs)) (Some (real (length xs)))"

datatype error = ShapeMismatch | IndexError | AxisError | TypeError

section \<open>The histogram utility\<close>

text \<open>
  \<^verbatim>\<open>xhistogram.core.histogram\<close> is an external collaborator of the module. An
  n-dimensional input is given here as the list of its one-dimensional slices along
  \<^verbatim>\<open>axis\<close>: the utility bins every slice on its own, and the result has one row of
  bins per slice.
\<close>

text \<open>Modelled from the spec: the binning rule of the weighted histogram utility, which
  is not part of the module. Bin \<open>i\<close> is the interval from edge \<open>i\<close> to edge \<open>i + 1\<close>,
  closed on the left and open on the right; the last bin is closed on both sides. A
  NaN sample falls in no bin.\<close>

definition in_bin :: "real list \<Rightarrow> nat \<Rightarrow> float \<Rightarrow> bool" where
  "in_bin edges i a =
     (case a of None \<Rightarrow> False
      | Some x \<Rightarrow> edges ! i \<le> x \<and>
          (x < edges ! Suc i \<or> (Suc (Suc i) = length edges \<and> x = edges ! Suc i)))"

definition count_in_bin :: "real list \<Rightarrow> nat \<Rightarrow> float list \<Rightarrow> nat" where
  "count_in_bin edges i a = length (filter (in_bin edges i) a)"

definition weight_in_bin :: "real list \<Rightarrow> nat \<Rightarrow> float list \<Rightarrow> float list \<Rightarrow> float" where
  "weight_in_bin edges i a w = fsum (map snd (filter (\<lambda>(x, _). in_bin edges i x) (zip a w)))"

text \<open>Modelled from the spec: the accumulation step of the histogram utility on one
  slice. Without weights a bin holds the number of samples falling in it, with weights
  the sum of their weights.\<close>

definition bin_counts :: "float list \<Rightarrow> real list \<Rightarrow> float list option \<Rightarrow> float list" where
  "bin_counts a edges weights =
     map (\<lambda>i. case weights of
                None \<Rightarrow> Some (real (count_in_bin edges i a))
              | Some w \<Rightarrow> weight_in_bin edges i a w)
         [0..<length edges - 1]"

text \<open>Modelled from the spec: the density normalisation of the histogram utility on one
  slice: each bin's weighted sum divided by the bin width and by the total weighted sum
  of the bins.\<close>

definition bin_width :: "real list \<Rightarrow> nat \<Rightarrow> real" where
  "bin_width edges i = edges ! Suc i - edges ! i"

definition normalise :: "float list \<Rightarrow> real list \<Rightarrow> float list" where
  "normalise bc edges =
     map (\<lambda>i. fdiv (fdiv (bc ! i) (Some (bin_width edges i))) (fsum bc)) [0..<length bc]"

definition histogram1 :: "float list \<Rightarrow> real list \<Rightarrow> float list option \<Rightarrow> bool \<Rightarrow> float list" where
  "histogram1 a edges weights density =
     (let bc = bin_counts a edges weights in if density then normalise bc edges else bc)"

text \<open>Modelled from the spec: \<^verbatim>\<open>histogram(a, bins=edges, weights=w, density=d, axis=axis)\<close>.
  The weights must have the shape of the samples.\<close>

definition histogram ::
  "float list list \<Rightarrow> real list \<Rightarrow> float list list option \<Rightarrow> bool \<Rightarrow> error + float list list" where
  "histogram a edges weights density =
     (case weights of
        None \<Rightarrow> Inr (map (\<lambda>s. histogram1 s edges None density) a)
      | Some w \<Rightarrow>
          if map length w \<noteq> map length a then Inl ShapeMismatch
          else Inr (map2 (\<lambda>s ws. histogram1 s edges (Some ws) density) a w))"

section \<open>Binned angular distributions\<close>

text \<open>
  \<^verbatim>\<open>bin_centers = bin_edges[1:] - (bin_edges[1] - bin_edges[0])/2\<close>:
  indexing \<^verbatim>\<open>bin_edges[1]\<close> raises \<^verbatim>\<open>IndexError\<close> on fewer than two edges.
\<close>

definition pdf_bin_centers :: "real list \<Rightarrow> error + real list" where
  "pdf_bin_centers bin_edges =
     (if length bin_edges < 2 then Inl IndexError
      else Inr (map (\<lambda>e. e - (bin_edges ! 1 - bin_edges ! 0) / 2) (drop 1 bin_edges)))"

definition make_angular_PDF ::
  "float list list \<Rightarrow> float list list \<Rightarrow> real list \<Rightarrow> error + float list list \<times> real list" where
  "make_angular_PDF angles weight bin_edges =
     (case histogram angles bin_edges (Some weight) True of
        Inl e \<Rightarrow> Inl e
      | Inr hist \<Rightarrow>
          (case pdf_bin_centers bin_edges of
             Inl e \<Rightarrow> Inl e
           | Inr bin_centers \<Rightarrow> Inr (hist, bin_centers)))"

text \<open>\<^verbatim>\<open>arr[mask] = v\<close> on a two-dimensional array and a boolean mask of its shape.\<close>

definition assign_where :: "float list list \<Rightarrow> bool list list \<Rightarrow> float \<Rightarrow> float list list" where
  "assign_where arr msk v = map2 (\<lambda>row mrow. map2 (\<lambda>x m. if m then v else x) row mrow) arr msk"

text \<open>\<^verbatim>\<open>counts == 0\<close>, elementwise.\<close>

definition eq_zero :: "float list list \<Rightarrow> bool list list" where
  "eq_zero arr = map (map (\<lambda>x. x = Some 0)) arr"

text \<open>\<^verbatim>\<open>hist/counts\<close>, elementwise on arrays of one shape.\<close>

definition divide_arrays :: "float list list \<Rightarrow> float list list \<Rightarrow> float list list" where
  "divide_arrays xs ys = map2 (\<lambda>row1 row2. map2 fdiv row1 row2) xs ys"

text \<open>
  \<^verbatim>\<open>np.array([np.mean(bin_edges[i:i+2]) for i in range(bin_edges.size - 1)])\<close>;
  \<^verbatim>\<open>range\<close> of a negative number is empty, as the truncated subtraction gives.
\<close>

definition average_bin_centers :: "real list \<Rightarrow> float list" where
  "average_bin_centers bin_edges =
     map (\<lambda>i. np_mean (take 2 (drop i bin_edges))) [0..<length bin_edges - 1]"

definition make_angular_average ::
  "float list list \<Rightarrow> float list list \<Rightarrow> real list \<Rightarrow> error + float list list \<times> float list" where
  "make_angular_average angles weight bin_edges =
     (case histogram angles bin_edges (Some weight) False of
        Inl e \<Rightarrow> Inl e
      | Inr hist \<Rightarrow>
          (case histogram angles bin_edges None False of
             Inl e \<Rightarrow> Inl e
           | Inr counts \<Rightarrow>
               (let bin_centers = average_bin_centers bin_edges;
                    hist' = assign_where hist (eq_zero counts) (Some 1);
                    counts' = assign_where counts (eq_zero counts) (Some 1)
                in Inr (divide_arrays hist' counts', bin_centers))))"

text \<open>The centering formula as the specification words it for \<^verbatim>\<open>make_angular_PDF\<close>:
  the width is the spacing of the last two edges,
  \<^verbatim>\<open>bin_edges[-1] - bin_edges[-2]\<close>.\<close>

definition centers_from_last_width :: "real list \<Rightarrow> real list \<Rightarrow> nat \<Rightarrow> bool" where
  "centers_from_last_width bin_edges bin_centers i \<longleftrightarrow>
     bin_centers ! i =
       bin_edges ! (i + 1) -
         (bin_edges ! (length bin_edges - 1) - bin_edges ! (length bin_edges - 2)) / 2"

text \<open>\<^verbatim>\<open>np.linspace(0, 360, 361)\<close>, the default \<^verbatim>\<open>bin_edges\<close>: the edges
  \<open>0, 1, \<dots>, 360\<close> of 360 one-degree bins.\<close>

definition default_bin_edges :: "real list" where
  "default_bin_edges = map real [0..<361]"

text \<open>A sample lies in the bin range when it is a number between the first and the
  last edge, both included.\<close>

definition in_range :: "real list \<Rightarrow> float \<Rightarrow> bool" where
  "in_range edges a = (case a of None \<Rightarrow> False | Some x \<Rightarrow> edges ! 0 \<le> x \<and> x \<le> last edges)"

text \<open>The total weight of a slice, \<^verbatim>\<open>weight.sum()\<close>, and the total weight of its
  samples that lie in the bin range.\<close>

definition total_weight :: "float list \<Rightarrow> float" where
  "total_weight w = fsum w"

definition weight_in_range :: "real list \<Rightarrow> float list \<Rightarrow> float list \<Rightarrow> float" where
  "weight_in_range edges a w = fsum (map snd (filter (\<lambda>(x, _). in_range edges x) (zip a w)))"

text \<open>The integral of a density over the bin range, \<^verbatim>\<open>sum(density * bin_width)\<close>,
  is 1.\<close>

definition integral :: "float list \<Rightarrow> real list \<Rightarrow> float" where
  "integral density edges =
     fsum (map (\<lambda>i. fmul (density ! i) (Some (bin_width edges i))) [0..<length density])"

definition integrates_to_one :: "float list \<Rightarrow> real list \<Rightarrow> bool" where
  "integrates_to_one density edges \<longleftrightarrow> integral density edges = Some 1"

section \<open>Degree-based trigonometry\<close>

text \<open>\<^verbatim>\<open>np.radians(x)\<close> is \<open>x * (pi / 180)\<close> and \<^verbatim>\<open>np.degrees(x)\<close> is
  \<open>x * (180 / pi)\<close>.\<close>

definition np_radians :: "real \<Rightarrow> real" where
  "np_radians x = x * (pi / 180)"

definition np_degrees :: "real \<Rightarrow> real" where
  "np_degrees x = x * (180 / pi)"

text \<open>Modelled from the spec: \<^verbatim>\<open>np.arctan2(y, x)\<close>, the quadrant-aware two-argument
  arctangent of the numeric library: the angle of the point \<open>(x, y)\<close>, by the sign of
  \<open>x\<close> and \<open>y\<close>, with the value 0 at the origin (the reals have one zero, taken as
  the float \<open>+0\<close>).\<close>

definition np_arctan2 :: "real \<Rightarrow> real \<Rightarrow> real" where
  "np_arctan2 y x =
     (if 0 < x then arctan (y / x)
      else if x < 0 \<and> 0 \<le> y then arctan (y / x) + pi
      else if x < 0 then arctan (y / x) - pi
      else if 0 < y then pi / 2
      else if y < 0 then - (pi / 2)
      else 0)"



definition arctan2d :: "real \<Rightarrow> real \<Rightarrow> real" where
  "arctan2d x1 x2 = np_degrees (np_arctan2 x1 x2)"

text \<open>
  The remainder operator \<^verbatim>\<open>%\<close> of the numeric library on floats: the C function
  \<^verbatim>\<open>fmod\<close>, whose result has the sign of the dividend, followed by a shift by the
  divisor when the signs of the result and of the divisor differ. The remainder by
  zero is NaN.
\<close>

definition c_fmod :: "real \<Rightarrow> real \<Rightarrow> real" where
  "c_fmod a b = a - b * of_int (if 0 \<le> a / b then \<lfloor>a / b\<rfloor> else \<lceil>a / b\<rceil>)"

definition np_mod :: "real \<Rightarrow> real \<Rightarrow> float" where
  "np_mod a b =
     (if b = 0 then None
      else (let m = c_fmod a b
            in if m \<noteq> 0 then (if (b < 0) \<noteq> (m < 0) then Some (m + b) else Some m)
               else Some 0))"

text \<open>The remainder as the specification words it: \<open>a mod b\<close>, with the sign of the
  divisor.\<close>

definition floor_mod :: "real \<Rightarrow> real \<Rightarrow> real" where
  "floor_mod a b = a - b * of_int \<lfloor>a / b\<rfloor>"

section \<open>Coordinate conversion\<close>

definition cartesian_to_polar :: "real \<Rightarrow> real \<Rightarrow> real \<times> float" where
  "cartesian_to_polar x y =
     (let r = sqrt (x\<^sup>2 + y\<^sup>2);
          theta = np_mod (arctan2d y x) 360
      in (r, theta))"

section \<open>Arrays and broadcasting\<close>

text \<open>
  The elementwise functions of the module take scalars (zero-dimensional arrays) and
  arrays alike. Arrays of dimension zero and one are modelled. Two operands are
  broadcast to a common shape: a scalar or an array of one element is stretched to the
  length of the other operand; two arrays of different lengths, neither of length one,
  raise a shape-mismatch error.
\<close>

datatype 'a ndarray = Scalar 'a | Array "'a list"

fun broadcast2 :: "('a \<Rightarrow> 'b \<Rightarrow> 'c) \<Rightarrow> 'a ndarray \<Rightarrow> 'b ndarray \<Rightarrow> error + 'c ndarray" where
  "broadcast2 f (Scalar x) (Scalar y) = Inr (Scalar (f x y))"
| "broadcast2 f (Scalar x) (Array ys) = Inr (Array (map (f x) ys))"
| "broadcast2 f (Array xs) (Scalar y) = Inr (Array (map (\<lambda>x. f x y) xs))"
| "broadcast2 f (Array xs) (Array ys) =
     (if length xs = length ys then Inr (Array (map2 f xs ys))
      else if length xs = 1 then Inr (Array (map (f (hd xs)) ys))
      else if length ys = 1 then Inr (Array (map (\<lambda>x. f x (hd ys)) xs))
      else Inl ShapeMismatch)"

text \<open>\<^verbatim>\<open>arctan2d\<close> on arrays: \<^verbatim>\<open>np.degrees(np.arctan2(x1, x2))\<close>.\<close>

definition arctan2d_nd :: "real ndarray \<Rightarrow> real ndarray \<Rightarrow> error + real ndarray" where
  "arctan2d_nd x1 x2 =
     (case broadcast2 np_arctan2 x1 x2 of
        Inl e \<Rightarrow> Inl e
      | Inr a \<Rightarrow> Inr (map_ndarray np_degrees a))"

text \<open>\<^verbatim>\<open>cartesian_to_polar\<close> on arrays: \<^verbatim>\<open>r = np.sqrt(x**2 + y**2)\<close> and
  \<^verbatim>\<open>theta = arctan2d(y, x) % 360\<close>.\<close>

definition cartesian_to_polar_nd ::
  "real ndarray \<Rightarrow> real ndarray \<Rightarrow> error + real ndarray \<times> float ndarray" where
  "cartesian_to_polar_nd x y =
     (case broadcast2 (+) (map_ndarray (\<lambda>v. v\<^sup>2) x) (map_ndarray (\<lambda>v. v\<^sup>2) y) of
        Inl e \<Rightarrow> Inl e
      | Inr s \<Rightarrow>
          (let r = map_ndarray sqrt s
           in case arctan2d_nd y x of
                Inl e \<Rightarrow> Inl e
              | Inr t \<Rightarrow> Inr (r, map_ndarray (\<lambda>v. np_mod v 360) t)))"

section \<open>Circular averaging\<close>

text \<open>A complex float is a \<open>complex option\<close>, \<open>None\<close> for a value with a NaN part.
  \<^verbatim>\<open>norm*np.exp(1j*np.radians(angles))\<close> on one pair of entries:\<close>

definition polar_vector :: "float \<Rightarrow> float \<Rightarrow> complex option" where
  "polar_vector n a =
     (case n of None \<Rightarrow> None
      | Some r \<Rightarrow> (case a of None \<Rightarrow> None
                   | Some t \<Rightarrow> Some (of_real r * exp (\<i> * of_real (np_radians t)))))"

text \<open>\<^verbatim>\<open>np.nanmean\<close> of the entries along an axis: the sum of the entries that are
  not NaN divided by their number, NaN when there is none.\<close>

definition np_nanmean :: "complex option list \<Rightarrow> complex option" where
  "np_nanmean zs =
     (let vs = List.map_filter (\<lambda>z. z) zs
      in if vs = [] then None else Some (sum_list vs / of_nat (length vs)))"

text \<open>\<^verbatim>\<open>np.angle(z)\<close> is \<^verbatim>\<open>arctan2(z.imag, z.real)\<close>, and \<^verbatim>\<open>np.absolute(z)\<close> is
  the modulus, computed from the two parts.\<close>

definition np_angle :: "complex \<Rightarrow> real" where
  "np_angle z = np_arctan2 (Im z) (Re z)"

definition np_absolute :: "complex \<Rightarrow> real" where
  "np_absolute z = sqrt ((Re z)\<^sup>2 + (Im z)\<^sup>2)"

text \<open>
  For the reduction along an axis the shape of the operands matters. An array of any
  dimension is a shape, the list of its lengths along the axes, and an entry for every
  index, the list of the positions along the axes. A scalar has the empty shape.
\<close>

record 'a nd_array =
  shape :: "nat list"
  item :: "nat list \<Rightarrow> 'a"

text \<open>\<^verbatim>\<open>np.array\<close> of a number, of a list and of a rectangular list of lists.\<close>

definition array0 :: "'a \<Rightarrow> 'a nd_array" where
  "array0 x = \<lparr>shape = [], item = (\<lambda>idx. x)\<rparr>"

definition array1 :: "'a list \<Rightarrow> 'a nd_array" where
  "array1 xs = \<lparr>shape = [length xs], item = (\<lambda>idx. xs ! (idx ! 0))\<rparr>"

definition array2 :: "'a list list \<Rightarrow> 'a nd_array" where
  "array2 rows =
     \<lparr>shape = [length rows, length (rows ! 0)], item = (\<lambda>idx. rows ! (idx ! 0) ! (idx ! 1))\<rparr>"

text \<open>The indices of a shape, the last axis running fastest, and the entries of an
  array in that order (the flattened array).\<close>

fun indices :: "nat list \<Rightarrow> nat list list" where
  "indices [] = [[]]"
| "indices (d # ds) = concat (map (\<lambda>i. map ((#) i) (indices ds)) [0..<d])"

definition entries :: "'a nd_array \<Rightarrow> 'a list" where
  "entries a = map (item a) (indices (shape a))"

text \<open>
  Broadcasting of two shapes: the shapes are aligned at the last axis; two lengths
  agree when they are equal or one of them is 1, and the longer shape supplies the
  leading axes. \<open>broadcast_dims\<close> works on the reversed shapes. An operand is read at
  the index \<open>stretch\<close> gives: the trailing positions of the index of the result, 0
  along an axis where the operand has length 1.
\<close>

fun broadcast_dims :: "nat list \<Rightarrow> nat list \<Rightarrow> nat list option" where
  "broadcast_dims [] ys = Some ys"
| "broadcast_dims (x # xs) [] = Some (x # xs)"
| "broadcast_dims (x # xs) (y # ys) =
     (if x = y \<or> y = 1 then map_option ((#) x) (broadcast_dims xs ys)
      else if x = 1 then map_option ((#) y) (broadcast_dims xs ys)
      else None)"

definition broadcast_shape :: "nat list \<Rightarrow> nat list \<Rightarrow> nat list option" where
  "broadcast_shape s t = map_option rev (broadcast_dims (rev s) (rev t))"

definition stretch :: "nat list \<Rightarrow> nat list \<Rightarrow> nat list" where
  "stretch s idx = map2 (\<lambda>d i. if d = 1 then 0 else i) s (drop (length idx - length s) idx)"

definition nd_broadcast2 ::
  "('a \<Rightarrow> 'b \<Rightarrow> 'c) \<Rightarrow> 'a nd_array \<Rightarrow> 'b nd_array \<Rightarrow> error + 'c nd_array" where
  "nd_broadcast2 f a b =
     (case broadcast_shape (shape a) (shape b) of
        None \<Rightarrow> Inl ShapeMismatch
      | Some s \<Rightarrow>
          Inr \<lparr>shape = s,
               item = (\<lambda>idx. f (item a (stretch (shape a) idx)) (item b (stretch (shape b) idx)))\<rparr>)"

definition nd_map :: "('a \<Rightarrow> 'b) \<Rightarrow> 'a nd_array \<Rightarrow> 'b nd_array" where
  "nd_map f a = \<lparr>shape = shape a, item = (\<lambda>idx. f (item a idx))\<rparr>"

text \<open>
  Reduction along an axis. For an array of dimension \<open>n\<close> the axis is \<^verbatim>\<open>None\<close> (all
  entries are reduced to a scalar) or a number from \<open>-n\<close> to \<open>n - 1\<close>, a negative
  number counting from the last axis; a scalar accepts the axes \<open>0\<close> and \<open>-1\<close> too.
  The result has the shape of the operand without the axis, and its entry at an index
  reduces the entries of the operand along the axis at that index.
\<close>

definition valid_axis :: "nat \<Rightarrow> int option \<Rightarrow> bool" where
  "valid_axis n axis =
     (case axis of
        None \<Rightarrow> True
      | Some k \<Rightarrow> (- int n \<le> k \<and> k < int n) \<or> (n = 0 \<and> (k = 0 \<or> k = - 1)))"

definition axis_index :: "nat \<Rightarrow> int \<Rightarrow> nat" where
  "axis_index n k = nat (if k < 0 then k + int n else k)"

definition reduced_shape :: "nat list \<Rightarrow> int option \<Rightarrow> nat list" where
  "reduced_shape s axis =
     (case axis of
        None \<Rightarrow> []
      | Some k \<Rightarrow>
          if s = [] then []
          else (let ax = axis_index (length s) k in take ax s @ drop (Suc ax) s))"

definition along_axis :: "'a nd_array \<Rightarrow> int option \<Rightarrow> nat list \<Rightarrow> 'a list" where
  "along_axis a axis idx =
     (case axis of
        None \<Rightarrow> entries a
      | Some k \<Rightarrow>
          if shape a = [] then entries a
          else (let ax = axis_index (length (shape a)) k
                in map (\<lambda>j. item a (take ax idx @ j # drop ax idx)) [0..<shape a ! ax]))"

text \<open>\<^verbatim>\<open>np.nanmean(z, axis=axis)\<close>.\<close>

definition nanmean_axis ::
  "complex option nd_array \<Rightarrow> int option \<Rightarrow> error + complex option nd_array" where
  "nanmean_axis z axis =
     (if valid_axis (length (shape z)) axis
      then Inr \<lparr>shape = reduced_shape (shape z) axis,
                item = (\<lambda>idx. np_nanmean (along_axis z axis idx))\<rparr>
      else Inl AxisError)"

text \<open>\<^verbatim>\<open>vector_average(angles, norm, axis)\<close>; the default of \<^verbatim>\<open>axis\<close> is \<open>-1\<close>.\<close>

definition vector_average ::
  "float nd_array \<Rightarrow> float nd_array \<Rightarrow> int option \<Rightarrow> error + float nd_array \<times> float nd_array" where
  "vector_average angles norms axis =
     (case nd_broadcast2 polar_vector norms angles of
        Inl e \<Rightarrow> Inl e
      | Inr v \<Rightarrow>
          (case nanmean_axis v axis of
             Inl e \<Rightarrow> Inl e
           | Inr average \<Rightarrow>
               Inr (nd_map (map_option (\<lambda>z. np_degrees (np_angle z))) average,
                    nd_map (map_option np_absolute) average)))"

text \<open>
  The mean resultant vector as the specification words it: of the pairs (norm, angle)
  without a NaN, the arithmetic mean of the vectors of polar form, taken by components;
  it is decomposed into its argument, in degrees, and its magnitude.
\<close>

definition mean_resultant :: "(float \<times> float) list \<Rightarrow> complex option" where
  "mean_resultant ps =
     (let vs = [(r, t). (Some r, Some t) \<leftarrow> ps]
      in if vs = [] then None
         else Some (Complex
                (sum_list (map (\<lambda>(r, t). r * cos (t * pi / 180)) vs) / real (length vs))
                (sum_list (map (\<lambda>(r, t). r * sin (t * pi / 180)) vs) / real (length vs))))"

section \<open>Arrays as objects in a store\<close>

text \<open>
  numpy arrays are mutable objects that a caller and a callee share by reference. To
  state which arrays a call changes, the arrays live in a store: a map from addresses
  to arrays with an allocation limit, every address at or above the limit being free.
  A new array is placed at the limit.
\<close>

datatype array_obj =
    Edges "real list"
  | Floats "float list list"
  | Vector "float list"

record store =
  cells :: "nat \<Rightarrow> array_obj option"
  lim :: nat

definition wf_store :: "store \<Rightarrow> bool" where
  "wf_store s \<longleftrightarrow> (\<forall>p. lim s \<le> p \<longrightarrow> cells s p = None)"

definition alloc :: "array_obj \<Rightarrow> store \<Rightarrow> nat \<times> store" where
  "alloc v s = (lim s, s\<lparr>cells := (cells s)(lim s \<mapsto> v), lim := Suc (lim s)\<rparr>)"

definition read_floats :: "store \<Rightarrow> nat \<Rightarrow> error + float list list" where
  "read_floats s p = (case cells s p of Some (Floats a) \<Rightarrow> Inr a | _ \<Rightarrow> Inl TypeError)"

definition read_edges :: "store \<Rightarrow> nat \<Rightarrow> error + real list" where
  "read_edges s p = (case cells s p of Some (Edges a) \<Rightarrow> Inr a | _ \<Rightarrow> Inl TypeError)"

text \<open>Modelled from the spec: the histogram utility is side-effect-free; it reads its
  operands and returns a new array.\<close>

definition histogram_st ::
  "nat \<Rightarrow> nat \<Rightarrow> nat option \<Rightarrow> bool \<Rightarrow> store \<Rightarrow> error + nat \<times> store" where
  "histogram_st a bins weights density s =
     (case read_floats s a of
        Inl e \<Rightarrow> Inl e
      | Inr av \<Rightarrow>
     (case read_edges s bins of
        Inl e \<Rightarrow> Inl e
      | Inr ev \<Rightarrow>
     (case (case weights of None \<Rightarrow> Inr None | Some w \<Rightarrow> map_sum id Some (read_floats s w)) of
        Inl e \<Rightarrow> Inl e
      | Inr wv \<Rightarrow>
     (case histogram av ev wv density of
        Inl e \<Rightarrow> Inl e
      | Inr h \<Rightarrow> Inr (alloc (Floats h) s)))))"

text \<open>The in-place assignment \<^verbatim>\<open>arr[msk] = v\<close>: the object at the address of
  \<^verbatim>\<open>arr\<close> is overwritten.\<close>

definition setitem_where :: "nat \<Rightarrow> bool list list \<Rightarrow> float \<Rightarrow> store \<Rightarrow> error + store" where
  "setitem_where arr msk v s =
     (case read_floats s arr of
        Inl e \<Rightarrow> Inl e
      | Inr xs \<Rightarrow> Inr (s\<lparr>cells := (cells s)(arr \<mapsto> Floats (assign_where xs msk v))\<rparr>))"

text \<open>\<^verbatim>\<open>make_angular_average\<close> on the store, statement by statement. The operands are
  addresses; the result is the pair of the addresses of the two returned arrays.\<close>

definition make_angular_average_st ::
  "nat \<Rightarrow> nat \<Rightarrow> nat \<Rightarrow> store \<Rightarrow> error + (nat \<times> nat) \<times> store" where
  "make_angular_average_st angles weight bin_edges s =
     (case histogram_st angles bin_edges (Some weight) False s of
        Inl e \<Rightarrow> Inl e
      | Inr (hist, s1) \<Rightarrow>
     (case histogram_st angles bin_edges None False s1 of
        Inl e \<Rightarrow> Inl e
      | Inr (counts, s2) \<Rightarrow>
     (case read_edges s2 bin_edges of
        Inl e \<Rightarrow> Inl e
      | Inr ev \<Rightarrow>
     (let (bin_centers, s3) = alloc (Vector (average_bin_centers ev)) s2
      in case read_floats s3 counts of
        Inl e \<Rightarrow> Inl e
      | Inr cv \<Rightarrow>
     (case setitem_where hist (eq_zero cv) (Some 1) s3 of
        Inl e \<Rightarrow> Inl e
      | Inr s4 \<Rightarrow>
     (case read_floats s4 counts of
        Inl e \<Rightarrow> Inl e
      | Inr cv' \<Rightarrow>
     (case setitem_where counts (eq_zero cv') (Some 1) s4 of
        Inl e \<Rightarrow> Inl e
      | Inr s5 \<Rightarrow>
     (case read_floats s5 hist of
        Inl e \<Rightarrow> Inl e
      | Inr hv \<Rightarrow>
     (case read_floats s5 counts of
        Inl e \<Rightarrow> Inl e
      | Inr cv'' \<Rightarrow>
     (let (average, s6) = alloc (Floats (divide_arrays hv cv'')) s5
      in Inr ((average, bin_centers), s6)))))))))))"

text \<open>A call that omits \<^verbatim>\<open>bin_edges\<close> receives the address of the default array,
  which is created once, when the module is loaded, and shared by all such calls.\<close>

definition make_angular_average_call ::
  "nat \<Rightarrow> nat \<Rightarrow> nat \<Rightarrow> nat option \<Rightarrow> store \<Rightarrow> error + (nat \<times> nat) \<times> store" where
  "make_angular_average_call default_edges angles weight bin_edges s =
     make_angular_average_st angles weight
       (case bin_edges of None \<Rightarrow> default_edges | Some b \<Rightarrow> b) s"

text \<open>A store with the three operands of a call: an array of angles at address 0, an
  array of weights at address 1 and the default bin edges at address 2.\<close>

definition example_store :: store where
  "example_store =
     \<lparr>cells = [0 \<mapsto> Floats [[Some 10, Some 12]], 1 \<mapsto> Floats [[Some 2, Some 4]],
               2 \<mapsto> Edges [0, 10, 20]],
      lim = 3\<rparr>"

text \<open>The same store after a call of \<^verbatim>\<open>make_angular_average\<close> on the three arrays:
  the two histograms, after the guard, at addresses 3 and 4, the bin centers at 5 and
  the averages at 6.\<close>

definition example_store_after :: store where
  "example_store_after =
     \<lparr>cells = [0 \<mapsto> Floats [[Some 10, Some 12]], 1 \<mapsto> Floats [[Some 2, Some 4]],
               2 \<mapsto> Edges [0, 10, 20], 3 \<mapsto> Floats [[Some 1, Some 6]],
               4 \<mapsto> Floats [[Some 1, Some 2]], 5 \<mapsto> Vector [Some 5, Some 15],
               6 \<mapsto> Floats [[Some 1, Some 3]]],
      lim = 7\<rparr>"

section \<open>Double precision\<close>

text \<open>
  The result of an operation on doubles is the double nearest to the exact result, a
  tie going to the double with an even significand. \<open>fl64\<close> rounds a real number to
  53 significant bits in this way. Overflow and the subnormal range are not part of
  \<open>fl64\<close>, which rounds in the same way at every magnitude; they are added to it below,
  for the operations of the radius.
\<close>

definition round_half_even :: "real \<Rightarrow> int" where
  "round_half_even x =
     (let f = \<lfloor>x\<rfloor>; d = x - of_int f
      in if d < 1 / 2 then f else if 1 / 2 < d then f + 1 else if even f then f else f + 1)"

definition fl64 :: "real \<Rightarrow> real" where
  "fl64 x =
     (if x = 0 then 0
      else (let e = \<lfloor>log 2 \<bar>x\<bar>\<rfloor>; u = 2 powr (of_int e - 52)
            in u * of_int (round_half_even (x / u))))"

text \<open>
  The functions of the conversion to polar coordinates as they run on doubles, every
  operation followed by its rounding. The library functions \<^verbatim>\<open>np.arctan2\<close> and
  \<^verbatim>\<open>np.sqrt\<close> are taken to return the double nearest to the exact value;
  \<^verbatim>\<open>np.degrees\<close> multiplies by the double constant \<^verbatim>\<open>180.0/pi\<close>. The C function
  \<^verbatim>\<open>fmod\<close> is exact, so the only rounding of the remainder operator is in the
  addition of the divisor.
\<close>

definition np_degrees_f64 :: "real \<Rightarrow> real" where
  "np_degrees_f64 x = fl64 (x * fl64 (180 / fl64 pi))"

definition np_arctan2_f64 :: "real \<Rightarrow> real \<Rightarrow> real" where
  "np_arctan2_f64 y x = fl64 (np_arctan2 y x)"

definition arctan2d_f64 :: "real \<Rightarrow> real \<Rightarrow> real" where
  "arctan2d_f64 x1 x2 = np_degrees_f64 (np_arctan2_f64 x1 x2)"

definition np_mod_f64 :: "real \<Rightarrow> real \<Rightarrow> float" where
  "np_mod_f64 a b =
     (if b = 0 then None
      else (let m = c_fmod a b
            in if m \<noteq> 0 then (if (b < 0) \<noteq> (m < 0) then Some (fl64 (m + b)) else Some m)
               else Some 0))"

definition cartesian_to_polar_f64 :: "real \<Rightarrow> real \<Rightarrow> real \<times> float" where
  "cartesian_to_polar_f64 x y =
     (let r = fl64 (sqrt (fl64 (fl64 (x\<^sup>2) + fl64 (y\<^sup>2))));
          theta = np_mod_f64 (arctan2d_f64 y x) 360
      in (r, theta))"

text \<open>
  The range of the doubles. The largest double is \<open>(2 - 1 / 2 ^ 52) * 2 ^ 1023\<close>: an
  operation whose result, rounded to 53 bits, is larger in magnitude returns an
  infinity, which is not a finite number (\<open>None\<close>). Below the smallest normal double,
  \<open>1 / 2 ^ 1022\<close>, the doubles are \<open>1 / 2 ^ 1074\<close> apart (the subnormal range), and a
  result of that magnitude is rounded to a multiple of \<open>1 / 2 ^ 1074\<close>: it loses
  precision and can become zero. An operation on an infinity or a NaN does not return a
  finite number either, in the operations used here.
\<close>

definition max_double :: real where
  "max_double = (2 - 1 / 2 ^ 52) * 2 ^ 1023"

definition fl64_ieee :: "real \<Rightarrow> float" where
  "fl64_ieee x =
     (if max_double < \<bar>fl64 x\<bar> then None
      else if \<bar>x\<bar> < 1 / 2 ^ 1022
        then Some (of_int (round_half_even (x * 2 ^ 1074)) / 2 ^ 1074)
      else Some (fl64 x))"

definition fmul_f64 :: "float \<Rightarrow> float \<Rightarrow> float" where
  "fmul_f64 a b =
     (case a of None \<Rightarrow> None | Some x \<Rightarrow> (case b of None \<Rightarrow> None | Some y \<Rightarrow> fl64_ieee (x * y)))"

definition fadd_f64 :: "float \<Rightarrow> float \<Rightarrow> float" where
  "fadd_f64 a b =
     (case a of None \<Rightarrow> None | Some x \<Rightarrow> (case b of None \<Rightarrow> None | Some y \<Rightarrow> fl64_ieee (x + y)))"

definition fsqrt_f64 :: "float \<Rightarrow> float" where
  "fsqrt_f64 a = (case a of None \<Rightarrow> None | Some x \<Rightarrow> if x < 0 then None else fl64_ieee (sqrt x))"

text \<open>\<^verbatim>\<open>r = np.sqrt(x**2 + y**2)\<close> on float64 arrays, with overflow and underflow;
  the square \<^verbatim>\<open>x**2\<close> is the product of \<open>x\<close> with itself.\<close>

definition radius_f64 :: "real \<Rightarrow> real \<Rightarrow> float" where
  "radius_f64 x y =
     fsqrt_f64 (fadd_f64 (fmul_f64 (Some x) (Some x)) (fmul_f64 (Some y) (Some y)))"


section \<open>Properties of the histogram model\<close>

lemma upt2: "[0..<2] = [0, 1]"
  by (simp add: upt_rec)

lemma upt3: "[0..<3] = [0, 1, 2]"
  by (simp add: upt_rec)

lemma histogram_weighted_Inr:
  assumes "histogram a edges (Some w) d = Inr h"
  shows "map length w = map length a"
    and "h = map2 (\<lambda>s ws. histogram1 s edges (Some ws) d) a w"
  using assms by (auto simp: histogram_def split: if_splits)

lemma map_length_eq_imp: "map length w = map length a \<Longrightarrow> length w = length a"
  by (metis length_map)

lemma length_bin_counts [simp]: "length (bin_counts a edges ws) = length edges - 1"
  by (simp add: bin_counts_def)

lemma nth_bin_counts_None:
  "i < length edges - 1 \<Longrightarrow> bin_counts a edges None ! i = Some (real (count_in_bin edges i a))"
  by (simp add: bin_counts_def)

lemma nth_bin_counts_Some:
  "i < length edges - 1 \<Longrightarrow> bin_counts a edges (Some w) ! i = weight_in_bin edges i a w"
  by (simp add: bin_counts_def)

section \<open>Bin centers of the angular PDF\<close>

text \<open>
  C1, as stated: the centers returned by \<^verbatim>\<open>make_angular_PDF\<close> are offset from the
  upper edges by half the spacing of the last two edges. This fails on the edges
  \<open>0, 1, 3\<close>: the first center is \<open>1/2\<close>, and the stated formula gives \<open>0\<close>.
\<close>

theorem pdf_bin_centers_counterexample:
  "make_angular_PDF [[Some (1/2)]] [[Some 1]] [0, 1, 3] = Inr ([[Some 1, Some 0]], [1/2, 5/2]) \<and>
   \<not> centers_from_last_width [0, 1, 3] [1/2, 5/2] 0"
  by (simp add: make_angular_PDF_def histogram_def histogram1_def bin_counts_def normalise_def
      weight_in_bin_def in_bin_def fsum_def fadd_def fdiv_def bin_width_def pdf_bin_centers_def
      upt2 centers_from_last_width_def)

text \<open>
  C1, amended: for every index \<open>i\<close>, the center \<open>i\<close> returned by \<^verbatim>\<open>make_angular_PDF\<close>
  is \<open>bin_edges[i+1] - w/2\<close> where \<open>w\<close> is the spacing of the first two edges,
  \<open>bin_edges[1] - bin_edges[0]\<close>; the one width is applied to every bin, also when the
  edges are not evenly spaced. There is one center per bin.
\<close>

theorem pdf_bin_centers_first_width:
  assumes "make_angular_PDF angles weight bin_edges = Inr (hist, bin_centers)"
    and "i < length bin_edges - 1"
  shows "length bin_centers = length bin_edges - 1 \<and>
         bin_centers ! i = bin_edges ! (i + 1) - (bin_edges ! 1 - bin_edges ! 0) / 2"
proof -
  have "pdf_bin_centers bin_edges = Inr bin_centers"
    using assms(1) by (auto simp: make_angular_PDF_def split: sum.splits)
  then have c: "bin_centers = map (\<lambda>e. e - (bin_edges ! 1 - bin_edges ! 0) / 2) (drop 1 bin_edges)"
    by (auto simp: pdf_bin_centers_def split: if_splits)
  have "length bin_centers = length bin_edges - 1"
    by (simp add: c)
  moreover have "bin_centers ! i = bin_edges ! (i + 1) - (bin_edges ! 1 - bin_edges ! 0) / 2"
    using assms(2) by (simp add: c)
  ultimately show ?thesis by simp
qed

theorem pdf_bin_centers_first_width_witness:
  "make_angular_PDF [[Some 2, Some 7]] [[Some 1, Some 3]] [0, 4, 6, 12]
     = Inr ([[Some (1/16), Some 0, Some (1/8)]], [2, 4, 10]) \<and>
   (1::nat) < length [0, 4, 6, 12 :: real] - 1 \<and>
   length [2, 4, 10 :: real] = length [0, 4, 6, 12 :: real] - 1 \<and>
   [2, 4, 10] ! 1 = [0, 4, 6, 12] ! (1 + 1) - ([0, 4, 6, 12] ! 1 - [0, 4, 6, 12 :: real] ! 0) / 2"
proof -
  have run: "make_angular_PDF [[Some 2, Some 7]] [[Some 1, Some 3]] [0, 4, 6, 12]
     = Inr ([[Some (1/16), Some 0, Some (1/8)]], [2, 4, 10])"
    by (simp add: make_angular_PDF_def histogram_def histogram1_def bin_counts_def normalise_def
        weight_in_bin_def in_bin_def fsum_def fadd_def fdiv_def bin_width_def pdf_bin_centers_def
        upt3)
  have idx: "(1::nat) < length [0, 4, 6, 12 :: real] - 1"
    by simp
  show ?thesis
    using run idx pdf_bin_centers_first_width [OF run idx] by simp
qed

section \<open>The binned average\<close>

lemma make_angular_average_Inr:
  assumes "make_angular_average angles weight bin_edges = Inr (average, bin_centers)"
  shows "length weight = length angles"
    and "bin_centers = average_bin_centers bin_edges"
    and "length average = length angles"
    and "j < length angles \<Longrightarrow> i < length bin_edges - 1 \<Longrightarrow>
         average ! j ! i =
           (if count_in_bin bin_edges i (angles ! j) = 0 then fdiv (Some 1) (Some 1)
            else fdiv (weight_in_bin bin_edges i (angles ! j) (weight ! j))
                      (Some (real (count_in_bin bin_edges i (angles ! j)))))"
proof -
  obtain hist where h: "histogram angles bin_edges (Some weight) False = Inr hist"
    using assms by (auto simp: make_angular_average_def split: sum.splits)
  have counts: "histogram angles bin_edges None False
                  = Inr (map (\<lambda>s. histogram1 s bin_edges None False) angles)"
    by (simp add: histogram_def)
  note hw = histogram_weighted_Inr [OF h]
  show lw: "length weight = length angles"
    using hw(1) by (rule map_length_eq_imp)
  define counts where "counts = map (\<lambda>s. histogram1 s bin_edges None False) angles"
  have res: "average = divide_arrays (assign_where hist (eq_zero counts) (Some 1))
                         (assign_where counts (eq_zero counts) (Some 1))"
    and "bin_centers = average_bin_centers bin_edges"
    using assms h counts by (simp_all add: make_angular_average_def counts_def Let_def)
  then show "bin_centers = average_bin_centers bin_edges"
    by simp
  have lh: "length hist = length angles"
    using hw(2) lw by simp
  have lc: "length counts = length angles"
    by (simp add: counts_def)
  show "length average = length angles"
    using lh lc by (simp add: res divide_arrays_def assign_where_def eq_zero_def)
  assume j: "j < length angles" and i: "i < length bin_edges - 1"
  have hj: "hist ! j = bin_counts (angles ! j) bin_edges (Some (weight ! j))"
    using j lw by (simp add: hw(2) histogram1_def)
  have cj: "counts ! j = bin_counts (angles ! j) bin_edges None"
    using j by (simp add: counts_def histogram1_def)
  have "average ! j ! i =
        fdiv (if counts ! j ! i = Some 0 then Some 1 else hist ! j ! i)
             (if counts ! j ! i = Some 0 then Some 1 else counts ! j ! i)"
    using j i lh lc hj cj
    by (simp add: res divide_arrays_def assign_where_def eq_zero_def)
  then show "average ! j ! i =
           (if count_in_bin bin_edges i (angles ! j) = 0 then fdiv (Some 1) (Some 1)
            else fdiv (weight_in_bin bin_edges i (angles ! j) (weight ! j))
                      (Some (real (count_in_bin bin_edges i (angles ! j)))))"
    using i by (simp add: hj cj nth_bin_counts_None nth_bin_counts_Some)
qed

lemma make_angular_average_example:
  "make_angular_average [[Some 10, Some 12], [None, Some 3]] [[Some 2, Some 4], [Some 5, Some 7]]
       [0, 10, 20]
     = Inr ([[Some 1, Some 3], [Some 7, Some 1]], [Some 5, Some 15])"
  by (simp add: make_angular_average_def histogram_def histogram1_def bin_counts_def
      weight_in_bin_def count_in_bin_def in_bin_def fsum_def fadd_def fdiv_def upt2
      average_bin_centers_def np_mean_def assign_where_def eq_zero_def divide_arrays_def)

text \<open>
  C2: whenever \<^verbatim>\<open>make_angular_average\<close> returns, every bin that received no sample
  along the binned axis holds exactly 1 in the returned average: the numerator and the
  denominator are both set to 1 before the division, so the entry is a finite number
  (not NaN, not the result of a division by zero) and it is not 0, whatever the weights
  are, NaN weights included.
\<close>

theorem empty_bin_average_is_one:
  assumes "make_angular_average angles weight bin_edges = Inr (average, bin_centers)"
    and "j < length angles" and "i < length bin_edges - 1"
    and "count_in_bin bin_edges i (angles ! j) = 0"
  shows "average ! j ! i = Some 1"
  using make_angular_average_Inr(4) [OF assms(1-3)] assms(4) by (simp add: fdiv_def)

theorem empty_bin_average_is_one_witness:
  "make_angular_average [[Some 10, Some 12], [None, Some 3]] [[Some 2, Some 4], [Some 5, Some 7]]
       [0, 10, 20]
     = Inr ([[Some 1, Some 3], [Some 7, Some 1]], [Some 5, Some 15]) \<and>
   (1::nat) < length [[Some 10, Some 12], [None, Some (3::real)]] \<and>
   (1::nat) < length [0, 10, 20 :: real] - 1 \<and>
   count_in_bin [0, 10, 20] 1 ([[Some 10, Some 12], [None, Some 3]] ! 1) = 0 \<and>
   [[Some 1, Some 3], [Some 7, Some (1::real)]] ! 1 ! 1 = Some 1"
proof -
  have j: "(1::nat) < length [[Some 10, Some 12], [None, Some (3::real)]]"
    by simp
  have i: "(1::nat) < length [0, 10, 20 :: real] - 1"
    by simp
  have c: "count_in_bin [0, 10, 20] 1 ([[Some 10, Some 12], [None, Some 3]] ! 1) = 0"
    by (simp add: count_in_bin_def in_bin_def)
  show ?thesis
    using make_angular_average_example j i c
      empty_bin_average_is_one [OF make_angular_average_example j i c]
    by simp
qed

lemma average_bin_centers_nth:
  assumes "i < length bin_edges - 1"
  shows "average_bin_centers bin_edges ! i = Some ((bin_edges ! i + bin_edges ! (i + 1)) / 2)"
proof -
  have "take 2 (drop i bin_edges) = [bin_edges ! i, bin_edges ! (i + 1)]"
    using assms by (simp add: take_Suc_conv_app_nth numeral_2_eq_2)
  then show ?thesis
    using assms by (simp add: average_bin_centers_def np_mean_def fdiv_def)
qed

text \<open>
  C6: whenever \<^verbatim>\<open>make_angular_average\<close> returns, there is one bin center per bin
  and, for every bin, sampled or not, center \<open>i\<close> is the mean of edges \<open>i\<close> and
  \<open>i + 1\<close>; and every bin holding at least one sample holds the sum of the weights of
  its samples divided by the number of its samples (a mean of the weights, with no
  normalisation by bin width or total weight).
\<close>

theorem nonempty_bin_average_is_mean:
  assumes "make_angular_average angles weight bin_edges = Inr (average, bin_centers)"
  shows "length bin_centers = length bin_edges - 1 \<and>
         (\<forall>i<length bin_edges - 1.
            bin_centers ! i = Some ((bin_edges ! i + bin_edges ! (i + 1)) / 2)) \<and>
         (\<forall>j<length angles. \<forall>i<length bin_edges - 1.
            0 < count_in_bin bin_edges i (angles ! j) \<longrightarrow>
            average ! j ! i =
              fdiv (weight_in_bin bin_edges i (angles ! j) (weight ! j))
                   (Some (real (count_in_bin bin_edges i (angles ! j)))))"
proof -
  have c: "bin_centers = average_bin_centers bin_edges"
    using make_angular_average_Inr(2) [OF assms] .
  have "length bin_centers = length bin_edges - 1"
    by (simp add: c average_bin_centers_def)
  moreover have "\<forall>i<length bin_edges - 1.
      bin_centers ! i = Some ((bin_edges ! i + bin_edges ! (i + 1)) / 2)"
    by (simp add: c average_bin_centers_nth)
  moreover have "average ! j ! i =
           fdiv (weight_in_bin bin_edges i (angles ! j) (weight ! j))
                (Some (real (count_in_bin bin_edges i (angles ! j))))"
    if "j < length angles" "i < length bin_edges - 1"
      "0 < count_in_bin bin_edges i (angles ! j)" for j i
    using make_angular_average_Inr(4) [OF assms that(1,2)] that(3) by simp
  ultimately show ?thesis
    by blast
qed

theorem nonempty_bin_average_is_mean_witness:
  "make_angular_average [[Some 10, Some 12], [None, Some 3]] [[Some 2, Some 4], [Some 5, Some 7]]
       [0, 10, 20]
     = Inr ([[Some 1, Some 3], [Some 7, Some 1]], [Some 5, Some 15]) \<and>
   length [Some 5, Some (15::real)] = length [0, 10, 20 :: real] - 1 \<and>
   (0::nat) < length [0, 10, 20 :: real] - 1 \<and>
   [Some 5, Some (15::real)] ! 0 = Some ((0 + 10) / 2) \<and>
   (1::nat) < length [0, 10, 20 :: real] - 1 \<and>
   [Some 5, Some (15::real)] ! 1 = Some ((10 + 20) / 2) \<and>
   (0::nat) < length [[Some 10, Some 12], [None, Some (3::real)]] \<and>
   0 < count_in_bin [0, 10, 20] 1 ([[Some 10, Some 12], [None, Some 3]] ! 0) \<and>
   [[Some 1, Some 3], [Some 7, Some (1::real)]] ! 0 ! 1 = Some ((2 + 4) / 2)"
proof -
  note run = make_angular_average_example
  note th = nonempty_bin_average_is_mean [OF run]
  have j: "(0::nat) < length [[Some 10, Some 12], [None, Some (3::real)]]"
    by simp
  have i0: "(0::nat) < length [0, 10, 20 :: real] - 1" and i1: "(1::nat) < length [0, 10, 20 :: real] - 1"
    by simp_all
  have c: "0 < count_in_bin [0, 10, 20] 1 ([[Some 10, Some 12], [None, Some 3]] ! 0)"
    by (simp add: count_in_bin_def in_bin_def)
  have len: "length [Some 5, Some (15::real)] = length [0, 10, 20 :: real] - 1"
    using th by blast
  have c0: "[Some 5, Some (15::real)] ! 0 = Some (([0, 10, 20] ! 0 + [0, 10, 20] ! (0 + 1)) / 2)"
    using th i0 by blast
  have c1: "[Some 5, Some (15::real)] ! 1 = Some (([0, 10, 20] ! 1 + [0, 10, 20] ! (1 + 1)) / 2)"
    using th i1 by blast
  have "[[Some 1, Some 3], [Some 7, Some (1::real)]] ! 0 ! 1 =
      fdiv (weight_in_bin [0, 10, 20] 1 ([[Some 10, Some 12], [None, Some 3]] ! 0)
              ([[Some 2, Some 4], [Some 5, Some 7]] ! 0))
           (Some (real (count_in_bin [0, 10, 20] 1 ([[Some 10, Some 12], [None, Some 3]] ! 0))))"
    using th j i1 c by blast
  then have m: "[[Some 1, Some 3], [Some 7, Some (1::real)]] ! 0 ! 1 = Some ((2 + 4) / 2)"
    by (simp add: weight_in_bin_def count_in_bin_def in_bin_def fsum_def fadd_def fdiv_def)
  show ?thesis
    using run len i0 c0 i1 c1 j c m by simp
qed

section \<open>Sums of floats and the partition of the bin range\<close>

lemma fadd_commute: "fadd a b = fadd b a"
  by (simp add: fadd_def split: option.splits)

lemma fadd_assoc: "fadd (fadd a b) c = fadd a (fadd b c)"
  by (simp add: fadd_def split: option.splits)

lemma fadd_left_commute: "fadd a (fadd b c) = fadd b (fadd a c)"
  by (simp add: fadd_def split: option.splits)

lemma fsum_Nil [simp]: "fsum [] = Some 0"
  by (simp add: fsum_def)

lemma fsum_Cons [simp]: "fsum (x # xs) = fadd x (fsum xs)"
  by (simp add: fsum_def)

lemma fsum_map_Some: "fsum (map Some rs) = Some (sum_list rs)"
  by (induction rs) (simp_all add: fadd_def)

lemma fsum_Some_D: "fsum xs = Some s \<Longrightarrow> \<exists>rs. xs = map Some rs \<and> s = sum_list rs"
proof (induction xs arbitrary: s)
  case Nil
  then show ?case by simp
next
  case (Cons x xs)
  from Cons.prems obtain r t where x: "x = Some r" and t: "fsum xs = Some t" and s: "s = r + t"
    by (auto simp: fadd_def split: option.splits)
  from Cons.IH [OF t] obtain rs where "xs = map Some rs" "t = sum_list rs" by blast
  then have "x # xs = map Some (r # rs) \<and> s = sum_list (r # rs)"
    using x s by simp
  then show ?case by (rule exI [of _ "r # rs"])
qed

lemma fsum_update_add:
  "i < length xs \<Longrightarrow> fsum (xs[i := fadd w (xs ! i)]) = fadd w (fsum xs)"
proof (induction xs arbitrary: i)
  case Nil
  then show ?case by simp
next
  case (Cons x xs)
  show ?case
  proof (cases i)
    case 0
    then show ?thesis by (simp add: fadd_assoc)
  next
    case (Suc k)
    then show ?thesis using Cons by (simp add: fadd_left_commute)
  qed
qed

lemma fsum_all_zero: "(\<forall>x\<in>set xs. x = Some 0) \<Longrightarrow> fsum xs = Some 0"
  by (induction xs) (simp_all add: fadd_def)

lemma in_bin_in_range:
  assumes "sorted_wrt (<) edges" and "i < length edges - 1" and "in_bin edges i a"
  shows "in_range edges a"
proof -
  obtain x where a: "a = Some x" using assms(3) by (cases a) (simp_all add: in_bin_def)
  have lo: "edges ! i \<le> x" and hi: "x \<le> edges ! Suc i"
    using assms(3) by (auto simp: in_bin_def a)
  have s: "sorted edges" using assms(1) by (simp add: strict_sorted_imp_sorted)
  have "edges ! 0 \<le> edges ! i"
    using s assms(2) by (simp add: sorted_iff_nth_mono)
  moreover have "edges ! Suc i \<le> last edges"
  proof -
    have ne: "edges \<noteq> []" using assms(2) by auto
    have "edges ! Suc i \<le> edges ! (length edges - 1)"
      using s assms(2) by (intro sorted_nth_mono) simp_all
    then show ?thesis using ne by (simp add: last_conv_nth)
  qed
  ultimately show ?thesis using lo hi by (simp add: in_range_def a)
qed

lemma in_bin_unique:
  assumes "sorted_wrt (<) edges" and "i < length edges - 1" and "k < length edges - 1"
    and "in_bin edges i a" and "in_bin edges k a"
  shows "i = k"
proof -
  obtain x where a: "a = Some x" using assms(4) by (cases a) (simp_all add: in_bin_def)
  have s: "sorted edges" using assms(1) by (simp add: strict_sorted_imp_sorted)
  have aux: False if "i' < k'" "k' < length edges - 1" "in_bin edges i' a" "in_bin edges k' a" for i' k'
  proof -
    have "x < edges ! Suc i'" using that by (auto simp: in_bin_def a)
    also have "edges ! Suc i' \<le> edges ! k'"
      using s that by (simp add: sorted_iff_nth_mono)
    also have "edges ! k' \<le> x" using that by (auto simp: in_bin_def a)
    finally show False by simp
  qed
  show ?thesis
    using aux [of i k] aux [of k i] assms by (cases i k rule: linorder_cases) auto
qed

lemma in_range_in_bin:
  assumes "sorted_wrt (<) edges" and "in_range edges a" and "2 \<le> length edges"
  shows "\<exists>i<length edges - 1. in_bin edges i a"
proof -
  obtain x where a: "a = Some x" using assms(2) by (cases a) (simp_all add: in_range_def)
  have lo: "edges ! 0 \<le> x" and hi: "x \<le> last edges"
    using assms(2) by (auto simp: in_range_def a)
  define S where "S = {i. i < length edges - 1 \<and> edges ! i \<le> x}"
  have fin: "finite S" by (simp add: S_def)
  have ne: "S \<noteq> {}" using lo assms(3) by (auto simp: S_def intro!: exI [of _ 0])
  define m where "m = Max S"
  have mS: "m \<in> S" unfolding m_def using fin ne by (rule Max_in)
  then have m1: "m < length edges - 1" and m2: "edges ! m \<le> x" by (auto simp: S_def)
  have "in_bin edges m a"
  proof (cases "Suc (Suc m) = length edges")
    case True
    then have "last edges = edges ! Suc m"
      by (metis assms(3) diff_Suc_1 last_conv_nth list.size(3) not_numeral_le_zero)
    then show ?thesis using m2 hi True by (auto simp: in_bin_def a)
  next
    case False
    then have sm: "Suc m < length edges - 1" using m1 by simp
    have "x < edges ! Suc m"
    proof (rule ccontr)
      assume "\<not> x < edges ! Suc m"
      then have "Suc m \<in> S" using sm by (simp add: S_def)
      then have "Suc m \<le> m" unfolding m_def using fin by simp
      then show False by simp
    qed
    then show ?thesis using m2 by (simp add: in_bin_def a)
  qed
  then show ?thesis using m1 by blast
qed

lemma bins_total:
  assumes "sorted_wrt (<) edges" and "2 \<le> length edges"
  shows "fsum (map (\<lambda>i. fsum (map snd (filter (\<lambda>(x, _). in_bin edges i x) zs))) [0..<length edges - 1])
         = fsum (map snd (filter (\<lambda>(x, _). in_range edges x) zs))"
proof (induction zs)
  case Nil
  show ?case by (simp add: fsum_all_zero)
next
  case (Cons z zs)
  obtain x w where z: "z = (x, w)" by (cases z)
  define n where "n = length edges - 1"
  define B where "B = map (\<lambda>i. fsum (map snd (filter (\<lambda>(x, _). in_bin edges i x) zs))) [0..<n]"
  define B' where "B' = map (\<lambda>i. fsum (map snd (filter (\<lambda>(x, _). in_bin edges i x) (z # zs)))) [0..<n]"
  have IH: "fsum B = fsum (map snd (filter (\<lambda>(x, _). in_range edges x) zs))"
    using Cons.IH by (simp add: B_def n_def)
  show ?case
  proof (cases "in_range edges x")
    case True
    from in_range_in_bin [OF assms(1) True assms(2)]
    obtain i0 where i0: "i0 < n" "in_bin edges i0 x" by (auto simp: n_def)
    have "B' = B[i0 := fadd w (B ! i0)]"
    proof (rule nth_equalityI)
      show "length B' = length (B[i0 := fadd w (B ! i0)])" by (simp add: B_def B'_def)
      fix i assume "i < length B'"
      then have i: "i < n" by (simp add: B'_def)
      show "B' ! i = B[i0 := fadd w (B ! i0)] ! i"
      proof (cases "i = i0")
        case True
        then show ?thesis using i i0 by (simp add: B_def B'_def z)
      next
        case False
        then have "\<not> in_bin edges i x"
          using in_bin_unique [OF assms(1), of i i0 x] i i0 by (auto simp: n_def)
        then show ?thesis using i False by (simp add: B_def B'_def z)
      qed
    qed
    moreover have "i0 < length B"
      using i0 by (simp add: B_def)
    ultimately have "fsum B' = fadd w (fsum B)"
      by (simp only: fsum_update_add)
    then show ?thesis using True IH by (simp add: B'_def n_def z)
  next
    case False
    have "B' = B"
      unfolding B'_def B_def
    proof (rule map_cong [OF refl])
      fix i assume "i \<in> set [0..<n]"
      then have "i < length edges - 1" by (simp add: n_def)
      then have "\<not> in_bin edges i x"
        using in_bin_in_range [OF assms(1), of i x] False by blast
      then show "fsum (map snd (filter (\<lambda>(x, _). in_bin edges i x) (z # zs)))
               = fsum (map snd (filter (\<lambda>(x, _). in_bin edges i x) zs))"
        by (simp add: z)
    qed
    then show ?thesis using False IH by (simp add: B'_def n_def z)
  qed
qed

lemma fsum_bin_counts:
  assumes "sorted_wrt (<) edges" and "2 \<le> length edges"
  shows "fsum (bin_counts a edges (Some w)) = weight_in_range edges a w"
  using bins_total [OF assms, of "zip a w"]
  by (simp add: bin_counts_def weight_in_bin_def weight_in_range_def)

lemma bin_width_pos:
  assumes "sorted_wrt (<) edges" and "i < length edges - 1"
  shows "0 < bin_width edges i"
  using assms by (simp add: bin_width_def sorted_wrt_iff_nth_less)

lemma integral_normalise:
  assumes "fsum bc = Some t" and "t \<noteq> 0"
    and "\<forall>i<length bc. bin_width edges i \<noteq> 0"
  shows "integral (normalise bc edges) edges = Some 1"
proof -
  from fsum_Some_D [OF assms(1)] obtain rs where bc: "bc = map Some rs" and t: "t = sum_list rs"
    by blast
  have "map (\<lambda>i. fmul (normalise bc edges ! i) (Some (bin_width edges i))) [0..<length (normalise bc edges)]
        = map Some (map (\<lambda>i. rs ! i / t) [0..<length rs])"
    using assms(1,2,3) by (simp add: normalise_def bc fdiv_def fmul_def)
  then have "integral (normalise bc edges) edges = Some (sum_list (map (\<lambda>i. rs ! i / t) [0..<length rs]))"
    unfolding integral_def by (simp only: fsum_map_Some)
  also have "map (\<lambda>i. rs ! i / t) [0..<length rs] = map (\<lambda>r. r / t) rs"
    by (rule nth_equalityI) simp_all
  also have "sum_list (map (\<lambda>r. r / t) rs) = sum_list rs / t"
    by (induction rs) (simp_all add: add_divide_distrib)
  finally show ?thesis using assms(2) t by simp
qed

section \<open>The angular PDF integrates to one\<close>

lemma length_default_bin_edges [simp]: "length default_bin_edges = 361"
  by (simp add: default_bin_edges_def)

lemma nth_default_bin_edges: "i < 361 \<Longrightarrow> default_bin_edges ! i = real i"
  by (simp add: default_bin_edges_def)

lemma last_default_bin_edges: "last default_bin_edges = 360"
  by (simp add: last_conv_nth default_bin_edges_def)

lemma sorted_default_bin_edges: "sorted_wrt (<) default_bin_edges"
  by (simp add: sorted_wrt_iff_nth_less nth_default_bin_edges)

lemma bin_width_default: "i < 360 \<Longrightarrow> bin_width default_bin_edges i = 1"
  by (simp add: bin_width_def nth_default_bin_edges)

lemma fsum_None: "None \<in> set xs \<Longrightarrow> fsum xs = None"
  by (induction xs) (auto simp: fadd_def split: option.splits)

lemma make_angular_PDF_Inr:
  assumes "make_angular_PDF angles weight bin_edges = Inr (density, bin_centers)"
  shows "length weight = length angles" and "2 \<le> length bin_edges"
    and "j < length angles \<Longrightarrow>
         density ! j = normalise (bin_counts (angles ! j) bin_edges (Some (weight ! j))) bin_edges"
proof -
  obtain hist where h: "histogram angles bin_edges (Some weight) True = Inr hist"
    using assms by (auto simp: make_angular_PDF_def split: sum.splits)
  note hw = histogram_weighted_Inr [OF h]
  show lw: "length weight = length angles"
    using hw(1) by (rule map_length_eq_imp)
  have "density = hist" and c: "pdf_bin_centers bin_edges = Inr bin_centers"
    using assms h by (auto simp: make_angular_PDF_def split: sum.splits)
  then have d: "density = map2 (\<lambda>s ws. histogram1 s bin_edges (Some ws) True) angles weight"
    using hw(2) by simp
  show "2 \<le> length bin_edges"
    using c by (auto simp: pdf_bin_centers_def split: if_splits)
  assume "j < length angles"
  then show "density ! j = normalise (bin_counts (angles ! j) bin_edges (Some (weight ! j))) bin_edges"
    using lw by (simp add: d histogram1_def)
qed

lemma density_integral:
  assumes "make_angular_PDF angles weight bin_edges = Inr (density, bin_centers)"
    and "sorted_wrt (<) bin_edges" and "j < length angles"
    and "weight_in_range bin_edges (angles ! j) (weight ! j) = Some t" and "t \<noteq> 0"
  shows "integral (density ! j) bin_edges = Some 1"
proof -
  note r = make_angular_PDF_Inr [OF assms(1)]
  define bc where "bc = bin_counts (angles ! j) bin_edges (Some (weight ! j))"
  have "fsum bc = Some t"
    using fsum_bin_counts [OF assms(2) r(2)] assms(4) by (simp add: bc_def)
  moreover have "\<forall>i<length bc. bin_width bin_edges i \<noteq> 0"
    using bin_width_pos [OF assms(2)] by (fastforce simp: bc_def)
  ultimately have "integral (normalise bc bin_edges) bin_edges = Some 1"
    using assms(5) by (intro integral_normalise)
  then show ?thesis
    using r(3) [OF assms(3)] by (simp add: bc_def)
qed

text \<open>
  C5, amended: when the bin edges are strictly increasing and the weights of the samples
  of a slice that lie inside the bin range (NaN samples and samples below the first or
  above the last edge are dropped by the histogram) have a finite, nonzero total, the
  density returned by \<^verbatim>\<open>make_angular_PDF\<close> for that slice integrates to 1: the sum over
  the bins of density times bin width is 1. With the default edges this is the sum of
  the 360 one-degree-bin densities (\<open>pdf_default_bins_sum_to_one\<close> below).
\<close>

theorem pdf_integrates_to_one:
  assumes "make_angular_PDF angles weight bin_edges = Inr (density, bin_centers)"
    and "sorted_wrt (<) bin_edges" and "j < length angles"
    and "weight_in_range bin_edges (angles ! j) (weight ! j) = Some t" and "t \<noteq> 0"
  shows "integrates_to_one (density ! j) bin_edges"
  unfolding integrates_to_one_def using assms by (rule density_integral)

lemma pdf_default_bins_sum_to_one:
  assumes "make_angular_PDF angles weight default_bin_edges = Inr (density, bin_centers)"
    and "j < length angles"
    and "weight_in_range default_bin_edges (angles ! j) (weight ! j) = Some t" and "t \<noteq> 0"
  shows "length (density ! j) = 360 \<and> fsum (density ! j) = Some 1"
proof -
  note r = make_angular_PDF_Inr(3) [OF assms(1,2)]
  have len: "length (density ! j) = 360"
    by (simp add: r normalise_def)
  have "integral (density ! j) default_bin_edges = Some 1"
    using assms(1) sorted_default_bin_edges assms(2-4) by (rule density_integral)
  moreover have "map (\<lambda>i. fmul (density ! j ! i) (Some (bin_width default_bin_edges i))) [0..<length (density ! j)]
      = density ! j"
    by (rule nth_equalityI) (simp_all add: len bin_width_default fmul_def split: option.splits)
  ultimately show ?thesis
    using len by (simp add: integral_def)
qed

lemma bin_counts_out_of_range:
  assumes "sorted_wrt (<) edges" and "\<forall>x\<in>set a. \<not> in_range edges x"
  shows "bin_counts a edges (Some w) = replicate (length edges - 1) (Some 0)"
proof (rule nth_equalityI)
  show "length (bin_counts a edges (Some w)) = length (replicate (length edges - 1) (Some (0::real)))"
    by simp
  fix i assume "i < length (bin_counts a edges (Some w))"
  then have i: "i < length edges - 1" by simp
  have "filter (\<lambda>(x, _). in_bin edges i x) (zip a w) = []"
    using in_bin_in_range [OF assms(1) i] assms(2)
    by (auto simp: filter_empty_conv dest: set_zip_leftD)
  then show "bin_counts a edges (Some w) ! i = replicate (length edges - 1) (Some 0) ! i"
    using i by (simp add: nth_bin_counts_Some weight_in_bin_def)
qed

text \<open>
  C5, as stated: for every input whose total weight is not zero the density integrates
  to 1. This fails for a single sample at \<open>-10\<close> degrees of weight 1 with the default
  edges: the total weight is 1, the sample lies below the first edge, every bin is
  empty, and the normalisation divides zero by zero in every bin.
\<close>

theorem pdf_integrates_to_one_counterexample:
  "total_weight [Some 1] = Some 1 \<and>
   map_sum id fst (make_angular_PDF [[Some (- 10)]] [[Some 1]] default_bin_edges)
     = Inr [replicate 360 None] \<and>
   \<not> integrates_to_one (replicate 360 None) default_bin_edges"
proof -
  have "\<forall>x\<in>set [Some (- 10)]. \<not> in_range default_bin_edges x"
    by (simp add: in_range_def nth_default_bin_edges)
  then have bc: "bin_counts [Some (- 10)] default_bin_edges (Some [Some 1]) = replicate 360 (Some 0)"
    using bin_counts_out_of_range [OF sorted_default_bin_edges] by fastforce
  have "normalise (replicate 360 (Some 0)) default_bin_edges = replicate 360 None"
    by (rule nth_equalityI) (simp_all add: normalise_def fsum_all_zero fdiv_def)
  then have "make_angular_PDF [[Some (- 10)]] [[Some 1]] default_bin_edges
       = Inr ([replicate 360 None], map (\<lambda>e. e - (default_bin_edges ! 1 - default_bin_edges ! 0) / 2) (drop 1 default_bin_edges))"
    by (simp add: make_angular_PDF_def histogram_def histogram1_def bc pdf_bin_centers_def)
  moreover have "integral (replicate 360 None) default_bin_edges = None"
  proof -
    have "map (\<lambda>i. fmul (replicate 360 None ! i) (Some (bin_width default_bin_edges i)))
            [0..<length (replicate 360 (None :: float))] = replicate 360 None"
      by (rule nth_equalityI) (simp_all add: fmul_def)
    then show ?thesis
      unfolding integral_def by (simp add: fsum_None)
  qed
  ultimately show ?thesis
    by (simp add: total_weight_def fadd_def integrates_to_one_def)
qed

theorem pdf_integrates_to_one_witness:
  "make_angular_PDF [[Some 2, Some 7, Some 20]] [[Some 1, Some 3, Some 9]] [0, 4, 6, 12]
     = Inr ([[Some (1/16), Some 0, Some (1/8)]], [2, 4, 10]) \<and>
   sorted_wrt (<) [0, 4, 6, 12 :: real] \<and>
   (0::nat) < length [[Some 2, Some 7, Some (20::real)]] \<and>
   weight_in_range [0, 4, 6, 12] ([[Some 2, Some 7, Some 20]] ! 0) ([[Some 1, Some 3, Some 9]] ! 0) = Some 4 \<and>
   (4::real) \<noteq> 0 \<and>
   integrates_to_one ([[Some (1/16), Some 0, Some (1/8)]] ! 0) [0, 4, 6, 12]"
proof -
  have run: "make_angular_PDF [[Some 2, Some 7, Some 20]] [[Some 1, Some 3, Some 9]] [0, 4, 6, 12]
     = Inr ([[Some (1/16), Some 0, Some (1/8)]], [2, 4, 10])"
    by (simp add: make_angular_PDF_def histogram_def histogram1_def bin_counts_def normalise_def
        weight_in_bin_def in_bin_def fsum_def fadd_def fdiv_def bin_width_def pdf_bin_centers_def
        upt3)
  have srt: "sorted_wrt (<) [0, 4, 6, 12 :: real]"
    by simp
  have j: "(0::nat) < length [[Some 2, Some 7, Some (20::real)]]"
    by simp
  have w: "weight_in_range [0, 4, 6, 12] ([[Some 2, Some 7, Some 20]] ! 0) ([[Some 1, Some 3, Some 9]] ! 0) = Some 4"
    by (simp add: weight_in_range_def in_range_def fadd_def)
  have t: "(4::real) \<noteq> 0"
    by simp
  show ?thesis
    using run srt j w t pdf_integrates_to_one [OF run srt j w t] by simp
qed

section \<open>The two-argument arctangent\<close>

lemma np_arctan2_bounds: "- pi < np_arctan2 y x \<and> np_arctan2 y x \<le> pi"
proof -
  have a: "- (pi / 2) < arctan (y / x)" "arctan (y / x) < pi / 2"
    using arctan_bounded [of "y / x"] by simp_all
  have b: "x < 0 \<Longrightarrow> 0 \<le> y \<Longrightarrow> arctan (y / x) \<le> 0"
    by (simp add: divide_nonneg_neg)
  have c: "x < 0 \<Longrightarrow> y < 0 \<Longrightarrow> 0 < arctan (y / x)"
    by (simp add: divide_neg_neg)
  show ?thesis
    using a b c pi_gt_zero by (auto simp: np_arctan2_def)
qed

lemma cos_sin_arctan_quotient:
  assumes "x \<noteq> 0"
  shows "cos (arctan (y / x)) = \<bar>x\<bar> / sqrt (x\<^sup>2 + y\<^sup>2)"
    and "sin (arctan (y / x)) = sgn x * y / sqrt (x\<^sup>2 + y\<^sup>2)"
proof -
  have "1 + (y / x)\<^sup>2 = (x\<^sup>2 + y\<^sup>2) / x\<^sup>2"
    using assms by (simp add: field_simps power2_eq_square)
  then have r: "sqrt (1 + (y / x)\<^sup>2) = sqrt (x\<^sup>2 + y\<^sup>2) / \<bar>x\<bar>"
    by (simp add: real_sqrt_divide)
  show "cos (arctan (y / x)) = \<bar>x\<bar> / sqrt (x\<^sup>2 + y\<^sup>2)"
    by (simp add: cos_arctan r)
  have s: "sin (arctan (y / x)) = ((y / x) * \<bar>x\<bar>) / sqrt (x\<^sup>2 + y\<^sup>2)"
    by (simp add: sin_arctan r)
  have "(y / x) * \<bar>x\<bar> = sgn x * y"
    using assms by (simp add: sgn_real_def)
  then show "sin (arctan (y / x)) = sgn x * y / sqrt (x\<^sup>2 + y\<^sup>2)"
    using s by simp
qed

lemma cos_sin_np_arctan2:
  assumes "x \<noteq> 0 \<or> y \<noteq> 0"
  shows "cos (np_arctan2 y x) = x / sqrt (x\<^sup>2 + y\<^sup>2)"
    and "sin (np_arctan2 y x) = y / sqrt (x\<^sup>2 + y\<^sup>2)"
proof -
  consider (pos) "0 < x" | (neg) "x < 0" | (zero) "x = 0" "y \<noteq> 0"
    using assms by fastforce
  then have "cos (np_arctan2 y x) = x / sqrt (x\<^sup>2 + y\<^sup>2) \<and> sin (np_arctan2 y x) = y / sqrt (x\<^sup>2 + y\<^sup>2)"
  proof cases
    case pos
    then show ?thesis
      using cos_sin_arctan_quotient [of x y] by (simp add: np_arctan2_def)
  next
    case neg
    then show ?thesis
      using cos_sin_arctan_quotient [of x y] by (simp add: np_arctan2_def)
  next
    case zero
    then show ?thesis
      by (auto simp: np_arctan2_def sgn_real_def real_div_sqrt abs_if)
  qed
  then show "cos (np_arctan2 y x) = x / sqrt (x\<^sup>2 + y\<^sup>2)"
    and "sin (np_arctan2 y x) = y / sqrt (x\<^sup>2 + y\<^sup>2)" by simp_all
qed

lemma np_arctan2_eq_Arg: "np_arctan2 y x = Arg (Complex x y)"
proof (cases "x = 0 \<and> y = 0")
  case True
  then show ?thesis
    by (simp add: np_arctan2_def Arg_def zero_complex.code)
next
  case False
  then have nz: "x \<noteq> 0 \<or> y \<noteq> 0" by simp
  have "sgn (Complex x y) = cis (np_arctan2 y x)"
    using cos_sin_np_arctan2 [OF nz]
    by (simp add: complex_eq_iff sgn_eq cmod_def)
  then show ?thesis
    using np_arctan2_bounds [of y x] by (intro cis_Arg_unique [symmetric]) simp_all
qed

section \<open>Polar coordinates\<close>

lemma floor_mod_bounds:
  assumes "0 < b"
  shows "0 \<le> floor_mod a b \<and> floor_mod a b < b"
proof -
  have eq: "floor_mod a b = b * (a / b - of_int \<lfloor>a / b\<rfloor>)"
    using assms by (simp add: floor_mod_def right_diff_distrib)
  have "0 \<le> a / b - of_int \<lfloor>a / b\<rfloor>" and "a / b - of_int \<lfloor>a / b\<rfloor> < 1"
    by linarith+
  then have "0 \<le> b * (a / b - of_int \<lfloor>a / b\<rfloor>)" and "b * (a / b - of_int \<lfloor>a / b\<rfloor>) < b * 1"
    using assms by (simp_all only: mult_nonneg_nonneg less_imp_le mult_strict_left_mono)
  then show ?thesis by (simp add: eq)
qed

lemma np_mod_pos:
  assumes "0 < b"
  shows "np_mod a b = Some (floor_mod a b)"
proof (cases "0 \<le> a / b")
  case True
  then have m: "c_fmod a b = floor_mod a b"
    by (simp add: c_fmod_def floor_mod_def)
  show ?thesis
    using assms floor_mod_bounds [OF assms, of a] by (auto simp: np_mod_def m Let_def)
next
  case False
  show ?thesis
  proof (cases "a / b = of_int \<lfloor>a / b\<rfloor>")
    case True
    then have "\<lceil>a / b\<rceil> = \<lfloor>a / b\<rfloor>"
      by (simp add: ceiling_altdef)
    then have m: "c_fmod a b = floor_mod a b"
      using False by (simp add: c_fmod_def floor_mod_def)
    show ?thesis
      using assms floor_mod_bounds [OF assms, of a] by (auto simp: np_mod_def m Let_def)
  next
    case nonint: False
    then have "\<lceil>a / b\<rceil> = \<lfloor>a / b\<rfloor> + 1"
      by (simp add: ceiling_altdef)
    then have m: "c_fmod a b = floor_mod a b - b"
      using False by (simp add: c_fmod_def floor_mod_def algebra_simps)
    have "floor_mod a b \<noteq> 0"
    proof
      assume "floor_mod a b = 0"
      then have "a = b * of_int \<lfloor>a / b\<rfloor>" by (simp add: floor_mod_def)
      then have "a / b = of_int \<lfloor>a / b\<rfloor>" using assms
        by (metis less_irrefl nonzero_mult_div_cancel_left)
      then show False using nonint by simp
    qed
    then show ?thesis
      using assms floor_mod_bounds [OF assms, of a] by (auto simp: np_mod_def m Let_def)
  qed
qed

lemma cartesian_to_polar_eq:
  "cartesian_to_polar x y = (sqrt (x\<^sup>2 + y\<^sup>2), Some (floor_mod (arctan2d y x) 360))"
  by (simp add: cartesian_to_polar_def np_mod_pos)




lemma arctan2d_values: "arctan2d 0 (- 1) = 180" "arctan2d 0 1 = 0"
  by (simp_all add: arctan2d_def np_arctan2_def np_degrees_def)

lemma arctan2d_bounds: "- 180 < arctan2d x1 x2 \<and> arctan2d x1 x2 \<le> 180"
proof -
  have "- pi * (180 / pi) < np_arctan2 x1 x2 * (180 / pi)"
    using np_arctan2_bounds [of x1 x2] by (intro mult_strict_right_mono) simp_all
  moreover have "np_arctan2 x1 x2 * (180 / pi) \<le> pi * (180 / pi)"
    using np_arctan2_bounds [of x1 x2] by (intro mult_right_mono) simp_all
  ultimately show ?thesis
    by (simp add: arctan2d_def np_degrees_def)
qed


section \<open>Elementwise functions on arrays\<close>

lemma broadcast2_elements:
  assumes "broadcast2 f a b = Inr c"
  shows "\<forall>v\<in>set_ndarray c. \<exists>x\<in>set_ndarray a. \<exists>y\<in>set_ndarray b. v = f x y"
proof (cases a; cases b)
  fix xs ys assume ab: "a = Array xs" "b = Array ys"
  show ?thesis
  proof (cases "length xs = length ys")
    case True
    then have "c = Array (map2 f xs ys)" using assms ab by simp
    then show ?thesis using ab by (auto dest: set_zip_leftD set_zip_rightD)
  next
    case False
    then show ?thesis
      using assms ab
      by (auto split: if_splits simp: length_Suc_conv)
  qed
qed (use assms in auto)

lemma broadcast2_map:
  "broadcast2 f (map_ndarray g a) (map_ndarray h b) = broadcast2 (\<lambda>x y. f (g x) (h y)) a b"
  by (cases a; cases b) (auto simp: zip_map1 zip_map2 split_def length_Suc_conv)

lemma map_sum_broadcast2:
  "(case broadcast2 f a b of Inl e \<Rightarrow> Inl e | Inr c \<Rightarrow> Inr (map_ndarray g c))
     = broadcast2 (\<lambda>x y. g (f x y)) a b"
  by (cases a; cases b) (auto simp: hd_map zip_map1 zip_map2 split_def)

lemma arctan2d_nd_eq: "arctan2d_nd x1 x2 = broadcast2 arctan2d x1 x2"
  unfolding arctan2d_nd_def arctan2d_def by (rule map_sum_broadcast2)

lemma cartesian_to_polar_nd_eq:
  "cartesian_to_polar_nd x y = Inr (r, theta) \<longleftrightarrow>
     broadcast2 (\<lambda>a b. fst (cartesian_to_polar a b)) x y = Inr r \<and>
     broadcast2 (\<lambda>b a. snd (cartesian_to_polar a b)) y x = Inr theta"
proof -
  have r: "(case broadcast2 (+) (map_ndarray (\<lambda>v. v\<^sup>2) x) (map_ndarray (\<lambda>v. v\<^sup>2) y) of
             Inl e \<Rightarrow> Inl e | Inr s \<Rightarrow> Inr (map_ndarray sqrt s))
           = broadcast2 (\<lambda>a b. fst (cartesian_to_polar a b)) x y"
    by (simp add: broadcast2_map map_sum_broadcast2 cartesian_to_polar_def Let_def)
  have t: "(case arctan2d_nd y x of Inl e \<Rightarrow> Inl e | Inr t \<Rightarrow> Inr (map_ndarray (\<lambda>v. np_mod v 360) t))
           = broadcast2 (\<lambda>b a. snd (cartesian_to_polar a b)) y x"
    by (simp add: arctan2d_nd_eq map_sum_broadcast2 cartesian_to_polar_def Let_def)
  have "cartesian_to_polar_nd x y = Inr (r, theta) \<longleftrightarrow>
        (case broadcast2 (+) (map_ndarray (\<lambda>v. v\<^sup>2) x) (map_ndarray (\<lambda>v. v\<^sup>2) y) of
             Inl e \<Rightarrow> Inl e | Inr s \<Rightarrow> Inr (map_ndarray sqrt s)) = Inr r \<and>
        (case arctan2d_nd y x of Inl e \<Rightarrow> Inl e | Inr t \<Rightarrow> Inr (map_ndarray (\<lambda>v. np_mod v 360) t))
           = Inr theta"
    by (auto simp: cartesian_to_polar_nd_def Let_def split: sum.splits)
  then show ?thesis
    by (simp only: r t)
qed

text \<open>
  C7: \<^verbatim>\<open>arctan2d(x1, x2)\<close> is the angle of the point \<open>(x2, x1)\<close> in degrees: the argument
  of the complex number \<open>x2 + i x1\<close>, the quadrant-aware two-argument arctangent,
  converted to degrees. It lies in \<open>[-180, 180]\<close>; \<^verbatim>\<open>arctan2d(0, -1)\<close> is 180 and
  \<^verbatim>\<open>arctan2d(0, 1)\<close> is 0. On broadcastable arrays the function acts elementwise, so
  every entry of the result lies in \<open>[-180, 180]\<close>.
\<close>

theorem arctan2d_quadrant_degrees:
  "arctan2d x1 x2 = Arg (Complex x2 x1) * (180 / pi) \<and>
   - 180 \<le> arctan2d x1 x2 \<and> arctan2d x1 x2 \<le> 180 \<and>
   arctan2d 0 (- 1) = 180 \<and> arctan2d 0 1 = 0 \<and>
   (\<forall>c. arctan2d_nd a1 a2 = Inr c \<longrightarrow>
      broadcast2 arctan2d a1 a2 = Inr c \<and> (\<forall>v\<in>set_ndarray c. - 180 \<le> v \<and> v \<le> 180))"
proof -
  have "arctan2d x1 x2 = Arg (Complex x2 x1) * (180 / pi)"
    by (simp add: arctan2d_def np_degrees_def np_arctan2_eq_Arg)
  moreover have "- 180 \<le> arctan2d x1 x2 \<and> arctan2d x1 x2 \<le> 180"
    using arctan2d_bounds [of x1 x2] by simp
  moreover have "\<forall>v\<in>set_ndarray c. - 180 \<le> v \<and> v \<le> 180"
    if "arctan2d_nd a1 a2 = Inr c" for c
  proof
    fix v assume v: "v \<in> set_ndarray c"
    have "broadcast2 arctan2d a1 a2 = Inr c"
      using that by (simp add: arctan2d_nd_eq)
    from broadcast2_elements [OF this] v obtain x y where "v = arctan2d x y"
      by blast
    then show "- 180 \<le> v \<and> v \<le> 180"
      using arctan2d_bounds [of x y] by simp
  qed
  ultimately show ?thesis
    by (simp add: arctan2d_values arctan2d_nd_eq)
qed

theorem arctan2d_quadrant_degrees_witness:
  "arctan2d_nd (Scalar 0) (Array [- 1, 1]) = Inr (Array [180, 0]) \<and>
   broadcast2 arctan2d (Scalar 0) (Array [- 1, 1]) = Inr (Array [180, 0]) \<and>
   set_ndarray (Array [180, 0 :: real]) = {180, 0} \<and>
   - 180 \<le> (180::real) \<and> (180::real) \<le> 180 \<and> - 180 \<le> (0::real) \<and> (0::real) \<le> 180"
proof -
  have run: "arctan2d_nd (Scalar 0) (Array [- 1, 1]) = Inr (Array [180, 0])"
    by (simp add: arctan2d_nd_def np_arctan2_def np_degrees_def)
  from arctan2d_quadrant_degrees [of 0 1 "Scalar 0" "Array [- 1, 1]"]
  have "\<forall>c. arctan2d_nd (Scalar 0) (Array [- 1, 1]) = Inr c \<longrightarrow>
      broadcast2 arctan2d (Scalar 0) (Array [- 1, 1]) = Inr c \<and>
      (\<forall>v\<in>set_ndarray c. - 180 \<le> v \<and> v \<le> 180)"
    by (elim conjE)
  with run show ?thesis
    by simp
qed

section \<open>The vector average\<close>

lemma Re_sum_list: "Re (sum_list zs) = sum_list (map Re zs)"
  by (induction zs) simp_all

lemma Im_sum_list: "Im (sum_list zs) = sum_list (map Im zs)"
  by (induction zs) simp_all

lemma polar_vector_Some:
  "polar_vector (Some r) (Some t) = Some (Complex (r * cos (t * pi / 180)) (r * sin (t * pi / 180)))"
proof -
  have "np_radians t = t * pi / 180"
    by (simp add: np_radians_def)
  then have "exp (\<i> * of_real (np_radians t)) = cis (t * pi / 180)"
    by (simp only: cis_conv_exp)
  then show ?thesis
    by (simp add: polar_vector_def complex_eq_iff)
qed

lemma polar_vector_None [simp]: "polar_vector None a = None" "polar_vector n None = None"
  by (simp_all add: polar_vector_def split: option.splits)

lemma map_filter_polar_vector:
  "List.map_filter (\<lambda>z. z) (map (\<lambda>(n, a). polar_vector n a) ps)
     = map (\<lambda>(r, t). Complex (r * cos (t * pi / 180)) (r * sin (t * pi / 180)))
         [(r, t). (Some r, Some t) \<leftarrow> ps]"
proof (induction ps)
  case Nil
  show ?case by simp
next
  case (Cons p ps)
  obtain n a where p: "p = (n, a)" by (cases p)
  show ?case
    using Cons by (cases n; cases a) (simp_all add: p polar_vector_Some)
qed

lemma np_nanmean_polar:
  "np_nanmean (map (\<lambda>(n, a). polar_vector n a) ps) = mean_resultant ps"
proof -
  define vs where "vs = [(r, t). (Some r, Some t) \<leftarrow> ps]"
  have "sum_list (map (\<lambda>(r, t). Complex (r * cos (t * pi / 180)) (r * sin (t * pi / 180))) vs) / of_nat (length vs)
        = Complex (sum_list (map (\<lambda>(r, t). r * cos (t * pi / 180)) vs) / real (length vs))
                  (sum_list (map (\<lambda>(r, t). r * sin (t * pi / 180)) vs) / real (length vs))"
    by (simp add: complex_eq_iff Re_sum_list Im_sum_list o_def split_def)
  then show ?thesis
    unfolding np_nanmean_def mean_resultant_def map_filter_polar_vector vs_def [symmetric]
    by (simp add: Let_def)
qed

lemma np_angle_eq_Arg: "np_angle z = Arg z"
  by (simp add: np_angle_def np_arctan2_eq_Arg)

lemma np_absolute_eq_cmod: "np_absolute z = cmod z"
  by (simp add: np_absolute_def cmod_def)

lemma degrees_Arg_bounds: "- 180 \<le> Arg z * (180 / pi) \<and> Arg z * (180 / pi) \<le> 180"
proof -
  have "- pi * (180 / pi) \<le> Arg z * (180 / pi)"
    using Arg_bounded [of z] by (intro mult_right_mono) simp_all
  moreover have "Arg z * (180 / pi) \<le> pi * (180 / pi)"
    using Arg_bounded [of z] by (intro mult_right_mono) simp_all
  ultimately show ?thesis by simp
qed

lemma nd_broadcast2_Pair:
  "nd_broadcast2 f a b = map_sum id (nd_map (\<lambda>(x, y). f x y)) (nd_broadcast2 Pair a b)"
  by (simp add: nd_broadcast2_def nd_map_def split: option.splits)

lemma along_axis_nd_map: "along_axis (nd_map f a) axis idx = map f (along_axis a axis idx)"
  by (simp add: along_axis_def nd_map_def entries_def Let_def split: option.splits)

lemma vector_average_Inr:
  assumes "vector_average angles norms axis = Inr (ang, mag)"
  shows "\<exists>ps. nd_broadcast2 Pair norms angles = Inr ps \<and>
           valid_axis (length (shape ps)) axis \<and>
           shape ang = reduced_shape (shape ps) axis \<and>
           shape mag = reduced_shape (shape ps) axis \<and>
           (\<forall>idx. item ang idx
                    = map_option (\<lambda>z. Arg z * (180 / pi)) (mean_resultant (along_axis ps axis idx)) \<and>
                  item mag idx = map_option cmod (mean_resultant (along_axis ps axis idx)))"
proof -
  obtain v average where v: "nd_broadcast2 polar_vector norms angles = Inr v"
    and av: "nanmean_axis v axis = Inr average"
    and ang: "ang = nd_map (map_option (\<lambda>z. np_degrees (np_angle z))) average"
    and mag: "mag = nd_map (map_option np_absolute) average"
    using assms by (auto simp: vector_average_def split: sum.splits)
  from v obtain ps where ps: "nd_broadcast2 Pair norms angles = Inr ps"
    and vps: "v = nd_map (\<lambda>(n, a). polar_vector n a) ps"
    using nd_broadcast2_Pair [of polar_vector norms angles]
    by (cases "nd_broadcast2 Pair norms angles") auto
  have sv: "shape v = shape ps"
    by (simp add: vps nd_map_def)
  have valid: "valid_axis (length (shape ps)) axis"
    and average: "average = \<lparr>shape = reduced_shape (shape ps) axis,
                              item = (\<lambda>idx. np_nanmean (along_axis v axis idx))\<rparr>"
    using av by (auto simp: nanmean_axis_def sv split: if_splits)
  have mean: "np_nanmean (along_axis v axis idx) = mean_resultant (along_axis ps axis idx)" for idx
    by (simp add: vps along_axis_nd_map np_nanmean_polar)
  have f1: "(\<lambda>z. np_degrees (np_angle z)) = (\<lambda>z. Arg z * (180 / pi))"
    by (simp add: fun_eq_iff np_angle_eq_Arg np_degrees_def)
  have f2: "np_absolute = cmod"
    by (simp add: fun_eq_iff np_absolute_eq_cmod)
  have "shape ang = reduced_shape (shape ps) axis" "shape mag = reduced_shape (shape ps) axis"
    by (simp_all add: ang mag average nd_map_def)
  moreover have "item ang idx
      = map_option (\<lambda>z. Arg z * (180 / pi)) (mean_resultant (along_axis ps axis idx))" for idx
    by (simp add: ang average nd_map_def mean f1)
  moreover have "item mag idx = map_option cmod (mean_resultant (along_axis ps axis idx))" for idx
    by (simp add: mag average nd_map_def mean f2)
  ultimately show ?thesis
    using ps valid by blast
qed

lemma cos_sin_359:
  "cos (359 * pi / 180) = cos (pi / 180)" "sin (359 * pi / 180) = - sin (pi / 180)"
proof -
  have e: "359 * pi / 180 = 2 * pi - pi / 180"
    by simp
  show "cos (359 * pi / 180) = cos (pi / 180)"
    by (simp only: e cos_2pi_minus)
  show "sin (359 * pi / 180) = - sin (pi / 180)"
    by (simp only: e sin_2pi_minus)
qed

lemma nanmean_359_1:
  "np_nanmean [polar_vector (Some 1) (Some 359), polar_vector (Some 1) (Some 1)]
     = Some (Complex (cos (pi / 180)) 0)"
  by (simp add: np_nanmean_def polar_vector_Some cos_sin_359 complex_eq_iff)

lemma decompose_359_1:
  "np_degrees (np_angle (Complex (cos (pi / 180)) 0)) = 0"
  "np_absolute (Complex (cos (pi / 180)) 0) = cos (pi / 180)"
proof -
  have pos: "0 < cos (pi / 180)"
    by (rule cos_gt_zero) (use pi_gt_zero in simp_all)
  then show "np_degrees (np_angle (Complex (cos (pi / 180)) 0)) = 0"
    "np_absolute (Complex (cos (pi / 180)) 0) = cos (pi / 180)"
    by (simp_all add: np_angle_def np_absolute_def np_arctan2_def np_degrees_def)
qed

lemma vector_average_wraparound:
  "\<exists>ang mag. vector_average (array1 [Some 359, Some 1]) (array1 [Some 1, Some 1]) (Some (- 1))
                 = Inr (ang, mag) \<and>
     shape ang = [] \<and> item ang [] = Some 0 \<and>
     shape mag = [] \<and> item mag [] = Some (cos (pi / 180))"
proof -
  have b: "broadcast_shape [Suc (Suc 0)] [Suc (Suc 0)] = Some [Suc (Suc 0)]"
    by (simp add: broadcast_shape_def)
  show ?thesis
    by (simp add: vector_average_def nd_broadcast2_def array1_def b nanmean_axis_def
        valid_axis_def reduced_shape_def axis_index_def along_axis_def stretch_def nd_map_def
        upt2 nanmean_359_1 decompose_359_1)
qed

text \<open>
  C3: whenever \<^verbatim>\<open>vector_average(angles, norm, axis)\<close> returns, on arrays of any
  dimension, \<^verbatim>\<open>norm\<close> broadcast against \<^verbatim>\<open>angles\<close>, and any valid axis, the two
  arrays it returns have the shape of the broadcast operands without the axis (a scalar
  for the axis \<^verbatim>\<open>None\<close>), and at every index they hold the decomposition of the
  NaN-skipping arithmetic mean, along the axis at that index, of the vectors
  \<open>norm * exp(i * radians(angles))\<close> into the argument of the mean, in degrees, and its
  magnitude. A returned angle is NaN or lies in \<open>[-180, 180]\<close>. The average of the
  angles 359 and 1 with unit norms is 0 degrees (in exact arithmetic), not 180.
\<close>

theorem vector_average_mean_resultant:
  assumes "vector_average angles norms axis = Inr (ang, mag)"
  shows "(\<exists>ps. nd_broadcast2 Pair norms angles = Inr ps \<and>
            valid_axis (length (shape ps)) axis \<and>
            shape ang = reduced_shape (shape ps) axis \<and>
            shape mag = reduced_shape (shape ps) axis \<and>
            (\<forall>idx. item ang idx
                     = map_option (\<lambda>z. Arg z * (180 / pi))
                         (mean_resultant (along_axis ps axis idx)) \<and>
                   item mag idx = map_option cmod (mean_resultant (along_axis ps axis idx)))) \<and>
         (\<forall>idx a. item ang idx = Some a \<longrightarrow> - 180 \<le> a \<and> a \<le> 180) \<and>
         (\<exists>ang0 mag0.
            vector_average (array1 [Some 359, Some 1]) (array1 [Some 1, Some 1]) (Some (- 1))
              = Inr (ang0, mag0) \<and>
            shape ang0 = [] \<and> item ang0 [] = Some 0 \<and>
            shape mag0 = [] \<and> item mag0 [] = Some (cos (pi / 180)))"
proof -
  note r = vector_average_Inr [OF assms]
  moreover have "\<forall>idx a. item ang idx = Some a \<longrightarrow> - 180 \<le> a \<and> a \<le> 180"
    using r degrees_Arg_bounds by auto
  ultimately show ?thesis
    using vector_average_wraparound by blast
qed

lemma Arg_degrees_examples:
  "Arg (Complex 1 1) * (180 / pi) = 45"
  "Arg (Complex (cos (pi / 180)) 0) * (180 / pi) = 0"
  "Arg (Complex 2 0) * (180 / pi) = 0"
proof -
  have pos: "0 < cos (pi / 180)"
    by (rule cos_gt_zero) (use pi_gt_zero in simp_all)
  have "np_arctan2 1 1 = pi / 4" "np_arctan2 0 (cos (pi / 180)) = 0" "np_arctan2 0 2 = 0"
    using pos by (simp_all add: np_arctan2_def arctan_one)
  then have a: "Arg (Complex 1 1) = pi / 4" "Arg (Complex (cos (pi / 180)) 0) = 0"
    "Arg (Complex 2 0) = 0"
    by (simp_all only: np_arctan2_eq_Arg)
  show "Arg (Complex 1 1) * (180 / pi) = 45"
    by (simp add: a(1))
  show "Arg (Complex (cos (pi / 180)) 0) * (180 / pi) = 0"
    by (simp only: a(2) mult_zero_left)
  show "Arg (Complex 2 0) * (180 / pi) = 0"
    by (simp only: a(3) mult_zero_left)
qed

lemma mean_resultant_examples:
  "mean_resultant [(Some 1, Some 359), (Some 1, Some 1)] = Some (Complex (cos (pi / 180)) 0)"
  "mean_resultant [(Some 2, Some 0), (Some 2, Some 90)] = Some (Complex 1 1)"
  "mean_resultant [(Some 2, None), (Some 2, Some 0)] = Some (Complex 2 0)"
  by (simp_all add: mean_resultant_def cos_sin_359)

theorem vector_average_mean_resultant_witness:
  "\<exists>ang mag.
     vector_average (array2 [[Some 359, Some 0, None], [Some 1, Some 90, Some 0]])
         (array1 [Some 1, Some 2, Some 2]) (Some 0)
       = Inr (ang, mag) \<and>
     shape ang = [3] \<and> shape mag = [3] \<and>
     item ang [0] = Some 0 \<and> item ang [1] = Some 45 \<and> item ang [2] = Some 0 \<and>
     item mag [0] = Some (cos (pi / 180)) \<and> item mag [1] = Some (sqrt 2) \<and>
     item mag [2] = Some 2 \<and>
     - 180 \<le> (45::real) \<and> (45::real) \<le> 180"
proof -
  define A where "A = array2 [[Some 359, Some 0, None], [Some 1, Some 90, Some (0::real)]]"
  define N where "N = array1 [Some 1, Some 2, Some (2::real)]"
  have bs: "broadcast_shape [Suc (Suc (Suc 0))] [Suc (Suc 0), Suc (Suc (Suc 0))]
              = Some [Suc (Suc 0), Suc (Suc (Suc 0))]"
    by (simp add: broadcast_shape_def)
  have pairs: "nd_broadcast2 Pair N A
      = Inr \<lparr>shape = [Suc (Suc 0), Suc (Suc (Suc 0))],
             item = (\<lambda>idx. (item N (stretch (shape N) idx), item A (stretch (shape A) idx)))\<rparr>"
    by (simp add: nd_broadcast2_def A_def N_def array1_def array2_def bs)
  have "\<exists>ang mag. vector_average A N (Some 0) = Inr (ang, mag)"
    by (simp add: vector_average_def nd_broadcast2_def A_def N_def array1_def array2_def bs
        nanmean_axis_def valid_axis_def)
  then obtain ang mag where run: "vector_average A N (Some 0) = Inr (ang, mag)"
    by blast
  from vector_average_mean_resultant [OF run]
  obtain ps where ps: "nd_broadcast2 Pair N A = Inr ps"
    and sh: "shape ang = reduced_shape (shape ps) (Some 0)"
            "shape mag = reduced_shape (shape ps) (Some 0)"
    and it: "\<And>idx. item ang idx
                     = map_option (\<lambda>z. Arg z * (180 / pi))
                         (mean_resultant (along_axis ps (Some 0) idx))"
            "\<And>idx. item mag idx = map_option cmod (mean_resultant (along_axis ps (Some 0) idx))"
    and bd: "\<And>idx a. item ang idx = Some a \<Longrightarrow> - 180 \<le> a \<and> a \<le> 180"
    by blast
  have psv: "ps = \<lparr>shape = [Suc (Suc 0), Suc (Suc (Suc 0))],
             item = (\<lambda>idx. (item N (stretch (shape N) idx), item A (stretch (shape A) idx)))\<rparr>"
    using ps pairs by simp
  have lanes:
    "along_axis ps (Some 0) [0] = [(Some 1, Some 359), (Some 1, Some 1)]"
    "along_axis ps (Some 0) [1] = [(Some 2, Some 0), (Some 2, Some 90)]"
    "along_axis ps (Some 0) [2] = [(Some 2, None), (Some 2, Some 0)]"
    by (simp_all add: psv along_axis_def axis_index_def stretch_def A_def N_def array1_def
        array2_def upt_rec)
  have shapes: "shape ang = [3]" "shape mag = [3]"
    using sh by (simp_all add: psv reduced_shape_def axis_index_def)
  have cm: "cmod (Complex 1 1) = sqrt 2" "cmod (Complex (cos (pi / 180)) 0) = cos (pi / 180)"
    "cmod (Complex 2 0) = 2"
    using cos_gt_zero [of "pi / 180"] pi_gt_zero by (simp_all add: cmod_def)
  have a0: "item ang [0] = Some 0"
    by (simp only: it(1) [of "[0]"] lanes mean_resultant_examples option.map Arg_degrees_examples)
  have a1: "item ang [1] = Some 45"
    by (simp only: it(1) [of "[1]"] lanes mean_resultant_examples option.map Arg_degrees_examples)
  have a2: "item ang [2] = Some 0"
    by (simp only: it(1) [of "[2]"] lanes mean_resultant_examples option.map Arg_degrees_examples)
  have m: "item mag [0] = Some (cos (pi / 180))" "item mag [1] = Some (sqrt 2)"
    "item mag [2] = Some 2"
    by (simp_all only: it(2) [of "[0]"] it(2) [of "[1]"] it(2) [of "[2]"] lanes
        mean_resultant_examples option.map cm)
  have "- 180 \<le> (45::real) \<and> (45::real) \<le> 180"
    using bd [OF a1] .
  then show ?thesis
    using run shapes a0 a1 a2 m unfolding A_def N_def by blast
qed

section \<open>The binned average leaves its operands unchanged\<close>

lemma alloc_props:
  assumes "alloc v s = (r, s')"
  shows "r = lim s" and "lim s' = Suc (lim s)" and "cells s' = (cells s)(lim s \<mapsto> v)"
  using assms by (auto simp: alloc_def)

lemma histogram_st_Inr:
  assumes "histogram_st a bins weights density s = Inr (r, s')"
  shows "r = lim s" and "lim s' = Suc (lim s)"
    and "\<exists>av ev wv h. cells s a = Some (Floats av) \<and> cells s bins = Some (Edges ev) \<and>
           (case weights of None \<Rightarrow> wv = None | Some w \<Rightarrow> \<exists>x. cells s w = Some (Floats x) \<and> wv = Some x) \<and>
           histogram av ev wv density = Inr h \<and> cells s' = (cells s)(lim s \<mapsto> Floats h)"
  using assms
  by (auto simp: histogram_st_def read_floats_def read_edges_def alloc_def
      split: sum.splits option.splits array_obj.splits)

lemma setitem_where_Inr:
  assumes "setitem_where arr msk v s = Inr s'"
  shows "lim s' = lim s"
    and "\<exists>xs. cells s arr = Some (Floats xs) \<and> cells s' = (cells s)(arr \<mapsto> Floats (assign_where xs msk v))"
  using assms
  by (auto simp: setitem_where_def read_floats_def split: sum.splits option.splits array_obj.splits)

lemma read_floats_Inr: "read_floats s p = Inr a \<longleftrightarrow> cells s p = Some (Floats a)"
  by (auto simp: read_floats_def split: option.splits array_obj.splits)

lemma read_edges_Inr: "read_edges s p = Inr a \<longleftrightarrow> cells s p = Some (Edges a)"
  by (auto simp: read_edges_def split: option.splits array_obj.splits)

lemma make_angular_average_st_steps:
  assumes "make_angular_average_st angles weight bin_edges s = Inr ((average, bin_centers), s')"
  obtains hist s1 counts s2 ev s3 cv s4 cv' s5 hv cv'' where
    "histogram_st angles bin_edges (Some weight) False s = Inr (hist, s1)"
    "histogram_st angles bin_edges None False s1 = Inr (counts, s2)"
    "read_edges s2 bin_edges = Inr ev"
    "alloc (Vector (average_bin_centers ev)) s2 = (bin_centers, s3)"
    "read_floats s3 counts = Inr cv"
    "setitem_where hist (eq_zero cv) (Some 1) s3 = Inr s4"
    "read_floats s4 counts = Inr cv'"
    "setitem_where counts (eq_zero cv') (Some 1) s4 = Inr s5"
    "read_floats s5 hist = Inr hv"
    "read_floats s5 counts = Inr cv''"
    "alloc (Floats (divide_arrays hv cv'')) s5 = (average, s')"
  using assms unfolding make_angular_average_st_def
  by (auto split: sum.splits prod.splits simp: Let_def)

lemma make_angular_average_st_frame:
  assumes run: "make_angular_average_st angles weight bin_edges s = Inr ((average, bin_centers), s')"
    and wf: "wf_store s"
  shows "\<forall>p<lim s. cells s' p = cells s p"
    and "\<exists>A W E avg c. cells s angles = Some (Floats A) \<and> cells s weight = Some (Floats W) \<and>
           cells s bin_edges = Some (Edges E) \<and>
           make_angular_average A W E = Inr (avg, c) \<and>
           cells s' average = Some (Floats avg) \<and> cells s' bin_centers = Some (Vector c)"
    and "lim s \<le> average" "lim s \<le> bin_centers" "average \<noteq> bin_centers"
proof -
  from run obtain hist s1 counts s2 ev s3 cv s4 cv' s5 hv cv'' where
    h1: "histogram_st angles bin_edges (Some weight) False s = Inr (hist, s1)" and
    h2: "histogram_st angles bin_edges None False s1 = Inr (counts, s2)" and
    e: "read_edges s2 bin_edges = Inr ev" and
    a3: "alloc (Vector (average_bin_centers ev)) s2 = (bin_centers, s3)" and
    r3: "read_floats s3 counts = Inr cv" and
    w4: "setitem_where hist (eq_zero cv) (Some 1) s3 = Inr s4" and
    r4: "read_floats s4 counts = Inr cv'" and
    w5: "setitem_where counts (eq_zero cv') (Some 1) s4 = Inr s5" and
    r5h: "read_floats s5 hist = Inr hv" and
    r5c: "read_floats s5 counts = Inr cv''" and
    a6: "alloc (Floats (divide_arrays hv cv'')) s5 = (average, s')"
    by (rule make_angular_average_st_steps)
  note H1 = histogram_st_Inr [OF h1]
  note H2 = histogram_st_Inr [OF h2]
  note A3 = alloc_props [OF a3]
  note W4 = setitem_where_Inr [OF w4]
  note W5 = setitem_where_Inr [OF w5]
  note A6 = alloc_props [OF a6]
  from H1(3) obtain A E W hv0 where
    cA: "cells s angles = Some (Floats A)" and cE: "cells s bin_edges = Some (Edges E)" and
    cW: "cells s weight = Some (Floats W)" and
    hh: "histogram A E (Some W) False = Inr hv0" and
    c1: "cells s1 = (cells s)(lim s \<mapsto> Floats hv0)"
    by auto
  from H2(3) obtain A' E' cv0 where
    cA': "cells s1 angles = Some (Floats A')" and cE': "cells s1 bin_edges = Some (Edges E')" and
    hc: "histogram A' E' None False = Inr cv0" and
    c2: "cells s2 = (cells s1)(lim s1 \<mapsto> Floats cv0)"
    by auto
  have hist: "hist = lim s" and counts: "counts = Suc (lim s)" and bc: "bin_centers = Suc (Suc (lim s))"
    and av: "average = Suc (Suc (Suc (lim s)))"
    and l1: "lim s1 = Suc (lim s)" and l2: "lim s2 = Suc (Suc (lim s))"
    and l5: "lim s5 = Suc (Suc (Suc (lim s)))"
    using H1(1,2) H2(1,2) A3(1,2) W4(1) W5(1) A6(1) by simp_all
  have c3: "cells s3 = (cells s2)(Suc (Suc (lim s)) \<mapsto> Vector (average_bin_centers ev))"
    using A3(3) l2 by simp
  from W4(2) obtain x4 where c4: "cells s4 = (cells s3)(lim s \<mapsto> Floats (assign_where x4 (eq_zero cv) (Some 1)))"
    and x4: "cells s3 hist = Some (Floats x4)"
    using hist by auto
  from W5(2) obtain x5 where c5: "cells s5 = (cells s4)(Suc (lim s) \<mapsto> Floats (assign_where x5 (eq_zero cv') (Some 1)))"
    and x5: "cells s4 counts = Some (Floats x5)"
    using counts by auto
  have c6: "cells s' = (cells s5)(Suc (Suc (Suc (lim s))) \<mapsto> Floats (divide_arrays hv cv''))"
    using A6(3) l5 by simp
  show "\<forall>p<lim s. cells s' p = cells s p"
    by (simp add: c6 c5 c4 c3 c2 c1 l1)
  show "lim s \<le> average" "lim s \<le> bin_centers" "average \<noteq> bin_centers"
    by (simp_all add: av bc)
  have below: "angles < lim s" "weight < lim s" "bin_edges < lim s"
    using wf cA cW cE unfolding wf_store_def by (metis not_le option.distinct(1))+
  have "A' = A" "E' = E"
    using cA' cE' cA cE below by (simp_all add: c1)
  moreover have "ev = E"
    using e cE below by (simp add: read_edges_Inr c2 c1 l1)
  moreover have "cv = cv0"
    using r3 by (simp add: read_floats_Inr c3 c2 l1 counts)
  moreover have "x4 = hv0"
    using x4 by (simp add: c3 c2 c1 l1 hist)
  moreover have "cv' = cv0"
    using r4 by (simp add: read_floats_Inr c4 c3 c2 l1 counts)
  moreover have "x5 = cv0"
    using x5 by (simp add: c4 c3 c2 l1 counts)
  ultimately have hv: "hv = assign_where hv0 (eq_zero cv0) (Some 1)"
    and cv'': "cv'' = assign_where cv0 (eq_zero cv0) (Some 1)"
    and hc': "histogram A E None False = Inr cv0" and ev: "ev = E"
    using r5h r5c hc by (simp_all add: read_floats_Inr c5 c4 hist counts)
  have "make_angular_average A W E
          = Inr (divide_arrays hv cv'', average_bin_centers ev)"
    by (simp add: make_angular_average_def hh hc' hv cv'' ev)
  moreover have "cells s' average = Some (Floats (divide_arrays hv cv''))"
    by (simp add: c6 av)
  moreover have "cells s' bin_centers = Some (Vector (average_bin_centers ev))"
    by (simp add: c6 c5 c4 c3 bc)
  ultimately show "\<exists>A W E avg c. cells s angles = Some (Floats A) \<and> cells s weight = Some (Floats W) \<and>
           cells s bin_edges = Some (Edges E) \<and>
           make_angular_average A W E = Inr (avg, c) \<and>
           cells s' average = Some (Floats avg) \<and> cells s' bin_centers = Some (Vector c)"
    using cA cW cE by blast
qed

text \<open>
  C9: a call of \<^verbatim>\<open>make_angular_average\<close> that returns leaves its operands as they
  were: the arrays of angles and of weights and the array of bin edges, the shared
  default array when the caller passes none, hold after the call what they held before,
  and so does every array that existed before the call. The two in-place assignments
  write to the two histograms, which the call has created, and the two returned arrays
  are new; they hold what the function computes from the operands.
\<close>

theorem make_angular_average_preserves_inputs:
  assumes "make_angular_average_call default_edges angles weight bin_edges s
             = Inr ((average, bin_centers), s')"
    and "wf_store s"
  shows "cells s' angles = cells s angles \<and> cells s' weight = cells s weight \<and>
         (case bin_edges of None \<Rightarrow> cells s' default_edges = cells s default_edges
          | Some b \<Rightarrow> cells s' b = cells s b) \<and>
         (\<forall>p<lim s. cells s' p = cells s p) \<and>
         lim s \<le> average \<and> lim s \<le> bin_centers \<and>
         (\<exists>A W E avg c.
            cells s angles = Some (Floats A) \<and> cells s weight = Some (Floats W) \<and>
            cells s (case bin_edges of None \<Rightarrow> default_edges | Some b \<Rightarrow> b) = Some (Edges E) \<and>
            make_angular_average A W E = Inr (avg, c) \<and>
            cells s' average = Some (Floats avg) \<and> cells s' bin_centers = Some (Vector c))"
proof -
  define b where "b = (case bin_edges of None \<Rightarrow> default_edges | Some b \<Rightarrow> b)"
  have run: "make_angular_average_st angles weight b s = Inr ((average, bin_centers), s')"
    using assms(1) by (simp add: make_angular_average_call_def b_def)
  note fr = make_angular_average_st_frame [OF run assms(2)]
  from fr(2) obtain A W E avg c where link:
    "cells s angles = Some (Floats A)" "cells s weight = Some (Floats W)"
    "cells s b = Some (Edges E)" "make_angular_average A W E = Inr (avg, c)"
    "cells s' average = Some (Floats avg)" "cells s' bin_centers = Some (Vector c)"
    by blast
  have below: "angles < lim s" "weight < lim s" "b < lim s"
    using assms(2) link(1-3) unfolding wf_store_def by (metis not_le option.distinct(1))+
  have "cells s' angles = cells s angles" "cells s' weight = cells s weight" "cells s' b = cells s b"
    using fr(1) below by simp_all
  moreover have "case bin_edges of None \<Rightarrow> cells s' default_edges = cells s default_edges
          | Some b \<Rightarrow> cells s' b = cells s b"
    using \<open>cells s' b = cells s b\<close> by (simp add: b_def split: option.splits)
  ultimately show ?thesis
    using fr(1,3,4) link unfolding b_def by blast
qed

lemma wf_example_store: "wf_store example_store"
  by (simp add: wf_store_def example_store_def)

lemma example_run:
  "make_angular_average_call 2 0 1 None example_store = Inr ((6, 5), example_store_after)"
  by (simp add: make_angular_average_call_def make_angular_average_st_def histogram_st_def
      read_floats_def read_edges_def alloc_def setitem_where_def example_store_def
      example_store_after_def
      histogram_def histogram1_def bin_counts_def weight_in_bin_def count_in_bin_def in_bin_def
      fsum_def fadd_def fdiv_def upt2 average_bin_centers_def np_mean_def assign_where_def
      eq_zero_def divide_arrays_def fun_eq_iff)

theorem make_angular_average_preserves_inputs_witness:
  "make_angular_average_call 2 0 1 None example_store = Inr ((6, 5), example_store_after) \<and>
   wf_store example_store \<and>
   cells example_store_after 0 = cells example_store 0 \<and>
   cells example_store_after 1 = cells example_store 1 \<and>
   cells example_store_after 2 = cells example_store 2 \<and>
   lim example_store \<le> 6 \<and> lim example_store \<le> 5"
  using example_run wf_example_store
    make_angular_average_preserves_inputs [OF example_run wf_example_store]
  by simp

section \<open>Rounding to double precision\<close>

lemma round_half_even_bounds:
  "\<lfloor>x\<rfloor> \<le> round_half_even x \<and> round_half_even x \<le> \<lceil>x\<rceil>"
proof -
  have "x = of_int \<lfloor>x\<rfloor> \<Longrightarrow> round_half_even x = \<lfloor>x\<rfloor>"
    by (simp add: round_half_even_def Let_def)
  moreover have "x \<noteq> of_int \<lfloor>x\<rfloor> \<Longrightarrow> \<lceil>x\<rceil> = \<lfloor>x\<rfloor> + 1"
    by (simp add: ceiling_altdef)
  ultimately show ?thesis
    by (cases "x = of_int \<lfloor>x\<rfloor>") (auto simp: round_half_even_def Let_def)
qed

lemma round_half_even_near:
  assumes "of_int n - 1 / 2 < x" and "x < of_int n + 1 / 2"
  shows "round_half_even x = n"
proof (cases "of_int n \<le> x")
  case True
  then have "\<lfloor>x\<rfloor> = n" using assms by linarith
  then show ?thesis using assms by (simp add: round_half_even_def Let_def)
next
  case False
  then have f: "\<lfloor>x\<rfloor> = n - 1" using assms by linarith
  have "1 / 2 < x - of_int (n - 1)" using assms by simp
  then show ?thesis using f by (simp add: round_half_even_def Let_def)
qed

lemma pow2_floor_log:
  assumes "x \<noteq> 0"
  shows "2 powr of_int \<lfloor>log 2 \<bar>x\<bar>\<rfloor> \<le> \<bar>x\<bar>" and "\<bar>x\<bar> < 2 powr (of_int \<lfloor>log 2 \<bar>x\<bar>\<rfloor> + 1)"
  using assms floor_log_eq_powr_iff [of "\<bar>x\<bar>" 2 "\<lfloor>log 2 \<bar>x\<bar>\<rfloor>"] by simp_all

lemma fl64_pos:
  assumes "0 < x"
  shows "2 powr of_int \<lfloor>log 2 x\<rfloor> \<le> fl64 x" and "fl64 x \<le> 2 powr (of_int \<lfloor>log 2 x\<rfloor> + 1)"
proof -
  define e where "e = \<lfloor>log 2 x\<rfloor>"
  define u :: real where "u = 2 powr (of_int e - 52)"
  have u: "0 < u" by (simp add: u_def)
  have fl: "fl64 x = u * of_int (round_half_even (x / u))"
    using assms by (simp add: fl64_def e_def u_def Let_def)
  have lo: "2 powr of_int e \<le> x" and hi: "x < 2 powr (of_int e + 1)"
    using pow2_floor_log [of x] assms by (simp_all add: e_def)
  have p: "2 powr of_int e = u * 2 ^ 52" "2 powr (of_int e + 1) = u * 2 ^ 53"
    by (simp_all add: u_def powr_diff powr_add)
  have "(2::real) ^ 52 \<le> x / u"
    using lo u by (simp add: p pos_le_divide_eq mult.commute)
  then have "(2::int) ^ 52 \<le> \<lfloor>x / u\<rfloor>"
    by (simp add: le_floor_iff)
  then have "(2::int) ^ 52 \<le> round_half_even (x / u)"
    using round_half_even_bounds [of "x / u"] by linarith
  then have "(2::real) ^ 52 \<le> of_int (round_half_even (x / u))"
    by (metis of_int_le_iff of_int_numeral of_int_power)
  then have "u * 2 ^ 52 \<le> u * of_int (round_half_even (x / u))"
    using u by (simp only: mult_le_cancel_left_pos)
  then show "2 powr of_int \<lfloor>log 2 x\<rfloor> \<le> fl64 x"
    by (simp only: fl p e_def [symmetric])
  have "x / u \<le> (2::real) ^ 53"
    using hi u by (simp add: p pos_divide_le_eq mult.commute)
  then have "\<lceil>x / u\<rceil> \<le> (2::int) ^ 53"
    by (simp add: ceiling_le_iff)
  then have "round_half_even (x / u) \<le> (2::int) ^ 53"
    using round_half_even_bounds [of "x / u"] by linarith
  then have "of_int (round_half_even (x / u)) \<le> (2::real) ^ 53"
    by (metis of_int_le_iff of_int_numeral of_int_power)
  then have "u * of_int (round_half_even (x / u)) \<le> u * 2 ^ 53"
    using u by (simp only: mult_le_cancel_left_pos)
  then show "fl64 x \<le> 2 powr (of_int \<lfloor>log 2 x\<rfloor> + 1)"
    by (simp only: fl p e_def [symmetric])
qed

lemma fl64_neg:
  assumes "x < 0"
  shows "- (2 powr (of_int \<lfloor>log 2 \<bar>x\<bar>\<rfloor> + 1)) \<le> fl64 x" and "fl64 x \<le> - (2 powr of_int \<lfloor>log 2 \<bar>x\<bar>\<rfloor>)"
proof -
  define e where "e = \<lfloor>log 2 \<bar>x\<bar>\<rfloor>"
  define u :: real where "u = 2 powr (of_int e - 52)"
  have u: "0 < u" by (simp add: u_def)
  have fl: "fl64 x = u * of_int (round_half_even (x / u))"
    using assms by (simp add: fl64_def e_def u_def Let_def)
  have lo: "2 powr of_int e \<le> - x" and hi: "- x < 2 powr (of_int e + 1)"
    using pow2_floor_log [of x] assms by (simp_all add: e_def)
  have p: "2 powr of_int e = u * 2 ^ 52" "2 powr (of_int e + 1) = u * 2 ^ 53"
    by (simp_all add: u_def powr_diff powr_add)
  have "u * 2 ^ 52 \<le> - x" using lo by (simp only: p)
  then have "x / u \<le> - ((2::real) ^ 52)"
    using u by (simp add: pos_divide_le_eq mult.commute)
  then have "\<lceil>x / u\<rceil> \<le> - ((2::int) ^ 52)"
    by (simp add: ceiling_le_iff)
  then have "round_half_even (x / u) \<le> - ((2::int) ^ 52)"
    using round_half_even_bounds [of "x / u"] by linarith
  then have "of_int (round_half_even (x / u)) \<le> - ((2::real) ^ 52)"
    by (metis of_int_le_iff of_int_minus of_int_numeral of_int_power)
  then have "u * of_int (round_half_even (x / u)) \<le> u * (- (2 ^ 52))"
    using u by (simp only: mult_le_cancel_left_pos)
  then show "fl64 x \<le> - (2 powr of_int \<lfloor>log 2 \<bar>x\<bar>\<rfloor>)"
    by (simp add: fl p e_def [symmetric])
  have "- x < u * 2 ^ 53" using hi by (simp only: p)
  then have "- ((2::real) ^ 53) \<le> x / u"
    using u by (simp add: pos_le_divide_eq mult.commute)
  then have "- ((2::int) ^ 53) \<le> \<lfloor>x / u\<rfloor>"
    by (simp add: le_floor_iff)
  then have "- ((2::int) ^ 53) \<le> round_half_even (x / u)"
    using round_half_even_bounds [of "x / u"] by linarith
  then have "- ((2::real) ^ 53) \<le> of_int (round_half_even (x / u))"
    by (metis of_int_le_iff of_int_minus of_int_numeral of_int_power)
  then have "u * (- (2 ^ 53)) \<le> u * of_int (round_half_even (x / u))"
    using u by (simp only: mult_le_cancel_left_pos)
  then show "- (2 powr (of_int \<lfloor>log 2 \<bar>x\<bar>\<rfloor> + 1)) \<le> fl64 x"
    by (simp add: fl p e_def [symmetric])
qed

lemma fl64_pos_bounds:
  assumes "0 < x"
  shows "x / 2 < fl64 x" and "fl64 x \<le> 2 * x"
proof -
  have "(2::real) powr (of_int \<lfloor>log 2 x\<rfloor> + 1) = 2 * 2 powr of_int \<lfloor>log 2 x\<rfloor>"
    by (simp add: powr_add)
  then show "x / 2 < fl64 x" and "fl64 x \<le> 2 * x"
    using fl64_pos [OF assms] pow2_floor_log [of x] assms by simp_all
qed

lemma fl64_neg_bounds:
  assumes "x < 0"
  shows "2 * x \<le> fl64 x" and "fl64 x < x / 2"
proof -
  have "(2::real) powr (of_int \<lfloor>log 2 \<bar>x\<bar>\<rfloor> + 1) = 2 * 2 powr of_int \<lfloor>log 2 \<bar>x\<bar>\<rfloor>"
    by (simp add: powr_add)
  then show "2 * x \<le> fl64 x" and "fl64 x < x / 2"
    using fl64_neg [OF assms] pow2_floor_log [of x] assms by simp_all
qed

lemma fl64_zero [simp]: "fl64 0 = 0"
  by (simp add: fl64_def)

lemma fl64_below_360:
  assumes "0 < s" and "s < 360"
  shows "0 < fl64 s" and "fl64 s \<le> 360"
proof -
  show "0 < fl64 s"
    using fl64_pos_bounds(1) [OF assms(1)] assms(1) by simp
  define e where "e = \<lfloor>log 2 s\<rfloor>"
  define k where "k = nat (52 - e)"
  define u :: real where "u = 2 powr (of_int e - 52)"
  have "s < 2 powr 9" using assms(2) by simp
  then have "log 2 s < 9"
    using assms(1) by (simp add: log_less_iff)
  then have e: "e \<le> 8"
    unfolding e_def by linarith
  then have "of_int e - 52 = - real k"
    by (simp add: k_def)
  then have uk: "u = 1 / 2 ^ k"
    by (simp add: u_def powr_minus powr_realpow inverse_eq_divide)
  have k4: "3 \<le> k" using e by (simp add: k_def)
  have fl: "fl64 s = u * of_int (round_half_even (s / u))"
    using assms by (simp add: fl64_def e_def u_def Let_def)
  have "s / u = s * 2 ^ k" by (simp add: uk)
  also have "\<dots> \<le> 360 * 2 ^ k" using assms(2) by simp
  also have "(360::real) * 2 ^ k = of_int (360 * 2 ^ k)" by simp
  finally have "\<lceil>s / u\<rceil> \<le> 360 * 2 ^ k"
    by (simp only: ceiling_le_iff)
  then have "round_half_even (s / u) \<le> 360 * 2 ^ k"
    using round_half_even_bounds [of "s / u"] by linarith
  then have "of_int (round_half_even (s / u)) \<le> (360::real) * 2 ^ k"
    by (metis of_int_le_iff of_int_mult of_int_numeral of_int_power)
  then have "of_int (round_half_even (s / u)) / 2 ^ k \<le> (360::real)"
    by (simp add: pos_divide_le_eq)
  then show "fl64 s \<le> 360"
    by (simp add: fl uk)
qed

lemma fl64_rounds_to_360:
  assumes "- (1 / 2 ^ 46) < t" and "t < 0"
  shows "fl64 (t + 360) = 360"
proof -
  define s where "s = t + 360"
  have t46: "(1::real) / 2 ^ 46 < 1" by simp
  have s: "256 \<le> s" "s < 512" using assms t46 by (simp_all add: s_def)
  have pw: "(2::real) powr 8 = 256" "(2::real) powr 9 = 512"
    by (simp_all add: powr_numeral)
  have e: "\<lfloor>log 2 s\<rfloor> = 8"
    using s floor_log_eq_powr_iff [of s 2 8] by (simp add: pw)
  have u: "(2::real) powr (of_int 8 - 52) = 1 / 2 ^ 44"
  proof -
    have "(2::real) powr (of_int 8 - 52) = 2 powr (- real (44::nat))" by simp
    also have "\<dots> = 1 / 2 ^ 44"
      by (simp only: powr_minus powr_realpow [OF zero_less_numeral] inverse_eq_divide)
    finally show ?thesis .
  qed
  have "fl64 s = 2 powr (of_int 8 - 52) * of_int (round_half_even (s / 2 powr (of_int 8 - 52)))"
    using s by (simp add: fl64_def e Let_def)
  then have fl: "fl64 s = (1 / 2 ^ 44) * of_int (round_half_even (s * 2 ^ 44))"
    by (simp only: u) simp
  have "s * 2 ^ 44 = of_int (360 * 2 ^ 44) + t * 2 ^ 44"
    by (simp add: s_def algebra_simps)
  moreover have "- (1 / 2) < t * 2 ^ 44" "t * 2 ^ 44 < 0"
    using assms by (simp_all add: field_simps)
  ultimately have "round_half_even (s * 2 ^ 44) = 360 * 2 ^ 44"
    by (intro round_half_even_near) linarith+
  then show ?thesis
    unfolding s_def [symmetric] by (simp add: fl)
qed

lemma arctan_le_self:
  assumes "0 \<le> x"
  shows "arctan x \<le> x"
proof -
  have "0 - arctan 0 \<le> x - arctan x"
  proof (rule DERIV_nonneg_imp_nondecreasing [OF assms, of "\<lambda>v. v - arctan v"])
    fix v :: real
    assume "0 \<le> v"
    have "((\<lambda>v. v - arctan v) has_real_derivative 1 - inverse (1 + v\<^sup>2)) (at v)"
      by (intro derivative_intros DERIV_arctan)
    moreover have "0 \<le> 1 - inverse (1 + v\<^sup>2)"
      by (simp add: inverse_le_1_iff)
    ultimately show "\<exists>y. ((\<lambda>v. v - arctan v) has_real_derivative y) (at v) \<and> 0 \<le> y"
      by blast
  qed
  then show ?thesis by simp
qed

section \<open>The range of the polar angle\<close>

lemma c_fmod_360:
  "(0 \<le> t \<longrightarrow> 0 \<le> c_fmod t 360 \<and> c_fmod t 360 < 360) \<and>
   (t < 0 \<longrightarrow> - 360 < c_fmod t 360 \<and> c_fmod t 360 \<le> 0)"
proof -
  define q where "q = t / 360"
  have tq: "t = 360 * q"
    by (simp add: q_def)
  have f: "of_int \<lfloor>q\<rfloor> \<le> q" "q < of_int \<lfloor>q\<rfloor> + 1"
    and c: "q \<le> of_int \<lceil>q\<rceil>" "of_int \<lceil>q\<rceil> - 1 < q"
    by linarith+
  show ?thesis
  proof (cases "0 \<le> t")
    case True
    then have "c_fmod t 360 = t - 360 * of_int \<lfloor>q\<rfloor>"
      by (simp add: c_fmod_def q_def)
    then have "0 \<le> c_fmod t 360 \<and> c_fmod t 360 < 360"
      using f tq by linarith
    then show ?thesis using True by simp
  next
    case False
    then have "c_fmod t 360 = t - 360 * of_int \<lceil>q\<rceil>"
      by (simp add: c_fmod_def q_def)
    then have "- 360 < c_fmod t 360 \<and> c_fmod t 360 \<le> 0"
      using c tq by linarith
    then show ?thesis using False by simp
  qed
qed

lemma np_mod_f64_360_bounds: "\<exists>v. np_mod_f64 t 360 = Some v \<and> 0 \<le> v \<and> v \<le> 360"
proof -
  define m where "m = c_fmod t 360"
  consider (zero) "m = 0" | (pos) "0 < m" | (neg) "m < 0" by linarith
  then show ?thesis
  proof cases
    case zero
    then show ?thesis by (simp add: np_mod_f64_def m_def)
  next
    case pos
    then have "m < 360" using c_fmod_360 [of t] by (cases "0 \<le> t") (auto simp: m_def)
    then show ?thesis using pos by (simp add: np_mod_f64_def m_def [symmetric] Let_def)
  next
    case neg
    then have "- 360 < m" using c_fmod_360 [of t] by (cases "0 \<le> t") (auto simp: m_def)
    then have "0 < fl64 (m + 360)" "fl64 (m + 360) \<le> 360"
      using fl64_below_360 [of "m + 360"] neg by simp_all
    then show ?thesis using neg by (simp add: np_mod_f64_def m_def [symmetric] Let_def)
  qed
qed

lemma degree_constant_f64: "0 < fl64 (180 / fl64 pi)" "fl64 (180 / fl64 pi) < 360"
proof -
  define q where "q = 180 / fl64 pi"
  have "pi / 2 < fl64 pi"
    using fl64_pos_bounds(1) [OF pi_gt_zero] .
  then have fp: "1 < fl64 pi"
    using pi_ge_two by linarith
  then have q: "0 < q" "q < 180"
    by (simp_all add: q_def field_simps)
  have "q / 2 < fl64 q" "fl64 q \<le> 2 * q"
    using fl64_pos_bounds [OF q(1)] by simp_all
  then have "0 < fl64 q" "fl64 q < 360"
    using q by linarith+
  then show "0 < fl64 (180 / fl64 pi)" "fl64 (180 / fl64 pi) < 360"
    by (simp_all only: q_def)
qed

lemma arctan2d_f64_tiny:
  "- (1 / 2 ^ 46) < arctan2d_f64 (- (1 / 2 ^ 100)) 1" "arctan2d_f64 (- (1 / 2 ^ 100)) 1 < 0"
proof -
  define y :: real where "y = - (1 / 2 ^ 100)"
  define a where "a = fl64 (arctan y)"
  define c where "c = fl64 (180 / fl64 pi)"
  have y: "y < 0" by (simp add: y_def)
  have "arctan (- y) \<le> - y" using y by (intro arctan_le_self) simp
  then have a0: "y \<le> arctan y" "arctan y < 0"
    using y by (simp_all add: arctan_minus)
  have a: "2 * y \<le> a" "a < 0"
    using fl64_neg_bounds [OF a0(2)] a0 by (simp_all add: a_def)
  have c: "0 < c" "c < 360"
    using degree_constant_f64 by (simp_all add: c_def)
  have ac: "a * c < 0" using a c by (simp add: mult_neg_pos)
  have "2 * y * 360 \<le> a * 360" using a by simp
  also have "a * 360 \<le> a * c" using a c by (simp add: mult_left_mono_neg)
  finally have lo: "720 * y \<le> a * c" by simp
  have t: "2 * (a * c) \<le> fl64 (a * c)" "fl64 (a * c) < 0"
    using fl64_neg_bounds [OF ac] ac by simp_all
  have eq: "arctan2d_f64 y 1 = fl64 (a * c)"
    by (simp add: arctan2d_f64_def np_degrees_f64_def np_arctan2_f64_def np_arctan2_def a_def c_def)
  have "(1440::real) / 2 ^ 100 < 1 / 2 ^ 46" by simp
  then have "- (1 / 2 ^ 46) < 1440 * y" by (simp add: y_def)
  also have "1440 * y \<le> fl64 (a * c)" using lo t by linarith
  finally have "- (1 / 2 ^ 46) < arctan2d_f64 y 1"
    by (simp only: eq)
  then show "- (1 / 2 ^ 46) < arctan2d_f64 (- (1 / 2 ^ 100)) 1"
    unfolding y_def .
  have "arctan2d_f64 y 1 < 0"
    using t by (simp only: eq)
  then show "arctan2d_f64 (- (1 / 2 ^ 100)) 1 < 0"
    unfolding y_def .
qed

text \<open>
  C4, as stated: the angle returned by \<^verbatim>\<open>cartesian_to_polar\<close> lies in \<open>[0, 360)\<close>
  and 360 is never returned. On doubles this fails at \<open>x = 1\<close> and \<open>y\<close> the
  negative of \<open>1 / 2 ^ 100\<close>: \<^verbatim>\<open>arctan2d(y, x)\<close> is a negative number of magnitude
  below \<open>1 / 2 ^ 46\<close>, \<^verbatim>\<open>fmod\<close> leaves it as it is, and the sum of it and 360
  rounds to 360.
\<close>

theorem cartesian_to_polar_returns_360:
  "snd (cartesian_to_polar_f64 1 (- (1 / 2 ^ 100))) = Some 360"
proof -
  define t where "t = arctan2d_f64 (- (1 / 2 ^ 100)) 1"
  have t: "- (1 / 2 ^ 46) < t" "t < 0"
    using arctan2d_f64_tiny by (simp_all only: t_def)
  have "(1::real) / 2 ^ 46 < 360" by simp
  then have t360: "- 1 < t / 360" "t / 360 < 0" using t by simp_all
  then have "\<lceil>t / 360\<rceil> = 0" by linarith
  then have m: "c_fmod t 360 = t"
    using t360 by (simp add: c_fmod_def)
  have "np_mod_f64 t 360 = Some 360"
    using t fl64_rounds_to_360 [OF t] by (simp add: np_mod_f64_def m Let_def)
  then show ?thesis
    by (simp only: cartesian_to_polar_f64_def t_def Let_def snd_conv)
qed

text \<open>
  C4, amended: \<^verbatim>\<open>cartesian_to_polar(x, y)\<close> returns \<open>r = sqrt(x\<^sup>2 + y\<^sup>2)\<close> and
  \<open>theta = arctan2d(y, x) mod 360\<close>, elementwise on broadcastable arrays. In exact
  arithmetic \<open>theta\<close> lies in \<open>[0, 360)\<close>. As computed on doubles \<open>theta\<close> lies in
  the closed range \<open>[0, 360]\<close>, the range the docstring of the function gives.
\<close>

theorem cartesian_to_polar_range:
  "cartesian_to_polar x y = (sqrt (x\<^sup>2 + y\<^sup>2), Some (floor_mod (arctan2d y x) 360)) \<and>
   0 \<le> floor_mod (arctan2d y x) 360 \<and> floor_mod (arctan2d y x) 360 < 360 \<and>
   (\<exists>v. snd (cartesian_to_polar_f64 x y) = Some v \<and> 0 \<le> v \<and> v \<le> 360) \<and>
   (\<forall>r theta. cartesian_to_polar_nd xs ys = Inr (r, theta) \<longrightarrow>
      broadcast2 (\<lambda>a b. fst (cartesian_to_polar a b)) xs ys = Inr r \<and>
      broadcast2 (\<lambda>b a. snd (cartesian_to_polar a b)) ys xs = Inr theta \<and>
      (\<forall>t\<in>set_ndarray theta. \<exists>v. t = Some v \<and> 0 \<le> v \<and> v < 360))"
proof -
  have "\<exists>v. snd (cartesian_to_polar_f64 x y) = Some v \<and> 0 \<le> v \<and> v \<le> 360"
    using np_mod_f64_360_bounds [of "arctan2d_f64 y x"]
    by (simp add: cartesian_to_polar_f64_def Let_def)
  moreover have "\<forall>t\<in>set_ndarray theta. \<exists>v. t = Some v \<and> 0 \<le> v \<and> v < 360"
    if "broadcast2 (\<lambda>b a. snd (cartesian_to_polar a b)) ys xs = Inr theta" for theta
  proof
    fix t assume "t \<in> set_ndarray theta"
    with broadcast2_elements [OF that] obtain a b where "t = snd (cartesian_to_polar a b)"
      by blast
    then show "\<exists>v. t = Some v \<and> 0 \<le> v \<and> v < 360"
      using floor_mod_bounds [of 360 "arctan2d b a"] by (simp add: cartesian_to_polar_eq)
  qed
  ultimately show ?thesis
    using floor_mod_bounds [of 360 "arctan2d y x"]
    by (simp add: cartesian_to_polar_eq cartesian_to_polar_nd_eq)
qed

lemma cartesian_to_polar_nd_example:
  "cartesian_to_polar_nd (Array [0, - 2]) (Array [- 3, 0])
     = Inr (Array [3, 2], Array [Some 270, Some 180])"
proof -
  have "arctan2d (- 3) 0 = - 90" "arctan2d 0 (- 2) = 180"
    by (simp_all add: arctan2d_def np_arctan2_def np_degrees_def)
  moreover have "floor_mod (- 90) 360 = 270" "floor_mod 180 360 = 180"
    by (simp_all add: floor_mod_def)
  ultimately show ?thesis
    by (simp add: cartesian_to_polar_nd_eq cartesian_to_polar_eq)
qed

theorem cartesian_to_polar_range_witness:
  "cartesian_to_polar_nd (Array [0, - 2]) (Array [- 3, 0])
     = Inr (Array [3, 2], Array [Some 270, Some 180]) \<and>
   broadcast2 (\<lambda>a b. fst (cartesian_to_polar a b)) (Array [0, - 2]) (Array [- 3, 0])
     = Inr (Array [3, 2]) \<and>
   broadcast2 (\<lambda>b a. snd (cartesian_to_polar a b)) (Array [- 3, 0]) (Array [0, - 2])
     = Inr (Array [Some 270, Some 180]) \<and>
   set_ndarray (Array [Some 270, Some (180::real)]) = {Some 270, Some 180} \<and>
   (0::real) \<le> 270 \<and> (270::real) < 360 \<and> (0::real) \<le> 180 \<and> (180::real) < 360"
proof -
  note run = cartesian_to_polar_nd_example
  from cartesian_to_polar_range [of 0 0 "Array [0, - 2]" "Array [- 3, 0]"]
  have "\<forall>r theta. cartesian_to_polar_nd (Array [0, - 2]) (Array [- 3, 0]) = Inr (r, theta) \<longrightarrow>
      broadcast2 (\<lambda>a b. fst (cartesian_to_polar a b)) (Array [0, - 2]) (Array [- 3, 0]) = Inr r \<and>
      broadcast2 (\<lambda>b a. snd (cartesian_to_polar a b)) (Array [- 3, 0]) (Array [0, - 2]) = Inr theta \<and>
      (\<forall>t\<in>set_ndarray theta. \<exists>v. t = Some v \<and> 0 \<le> v \<and> v < 360)"
    by (elim conjE)
  with run have
    "broadcast2 (\<lambda>a b. fst (cartesian_to_polar a b)) (Array [0, - 2]) (Array [- 3, 0])
       = Inr (Array [3, 2]) \<and>
     broadcast2 (\<lambda>b a. snd (cartesian_to_polar a b)) (Array [- 3, 0]) (Array [0, - 2])
       = Inr (Array [Some 270, Some 180])"
    by blast
  with run show ?thesis
    by simp
qed

text \<open>
  C10: at the origin \<^verbatim>\<open>cartesian_to_polar(0, 0)\<close> returns \<open>r = 0\<close> and \<open>theta = 0\<close>,
  a number and not NaN, in exact arithmetic and on doubles.
\<close>

theorem cartesian_to_polar_origin:
  "cartesian_to_polar 0 0 = (0, Some 0) \<and> cartesian_to_polar_f64 0 0 = (0, Some 0)"
  by (simp add: cartesian_to_polar_eq arctan2d_def np_arctan2_def np_degrees_def floor_mod_def
      cartesian_to_polar_f64_def arctan2d_f64_def np_arctan2_f64_def np_degrees_f64_def
      np_mod_f64_def c_fmod_def)

section \<open>The round trip and the range of the doubles\<close>


lemma max_double_bounds: "2 ^ 1023 \<le> max_double" "max_double < 2 ^ 1024"
proof -
  have "(1::real) \<le> 2 - 1 / 2 ^ 52" "(2::real) - 1 / 2 ^ 52 < 2"
    by simp_all
  then have "1 * 2 ^ 1023 \<le> (2 - 1 / 2 ^ 52) * (2::real) ^ 1023"
    and "(2 - 1 / 2 ^ 52) * (2::real) ^ 1023 < 2 * 2 ^ 1023"
    by (simp_all only: mult_le_cancel_right_pos mult_less_cancel_right_pos zero_less_power zero_less_numeral)
  moreover have "(2::real) * 2 ^ 1023 = 2 ^ 1024"
    by (simp only: power_Suc [symmetric]) simp
  ultimately show "2 ^ 1023 \<le> max_double" "max_double < 2 ^ 1024"
    by (simp_all only: max_double_def mult_1)
qed



lemma fl64_ieee_zero: "fl64_ieee 0 = Some 0"
proof -
  have "(0::real) \<le> 2 ^ 1023" by simp
  then have "0 \<le> max_double"
    using max_double_bounds(1) by (rule order_trans)
  then have 1: "\<not> max_double < \<bar>fl64 0\<bar>"
    by (simp only: fl64_zero abs_zero not_less)
  have 2: "round_half_even 0 = 0"
    by (simp add: round_half_even_def)
  have 3: "\<bar>0::real\<bar> < 1 / 2 ^ 1022" by simp
  show ?thesis
    by (simp only: fl64_ieee_def 1 2 3 if_False if_True mult_zero_left of_int_0 div_0)
qed



text \<open>
  Below the bound the squares underflow: at \<open>x = y = 1 / 2 ^ 600\<close> each square is
  rounded to zero, and so is the radius.
\<close>

lemma radius_f64_underflow: "radius_f64 (1 / 2 ^ 600) (1 / 2 ^ 600) = Some 0"
proof -
  define z :: real where "z = 1 / 2 ^ 600 * (1 / 2 ^ 600)"
  have z: "z = 1 / 2 ^ 1200" by (simp add: z_def)
  have z0: "0 < z" by (simp add: z)
  have "fl64 z \<le> 2 * z" using z0 by (rule fl64_pos_bounds)
  also have "2 * z \<le> 2 ^ 1023" by (simp add: z)
  also have "2 ^ 1023 \<le> max_double" by (rule max_double_bounds)
  finally have "fl64 z \<le> max_double" .
  moreover have "0 < fl64 z"
    using fl64_pos_bounds(1) [OF z0] z0 by simp
  ultimately have 1: "\<not> max_double < \<bar>fl64 z\<bar>" by simp
  have 2: "\<bar>z\<bar> < 1 / 2 ^ 1022" by (simp add: z)
  have 3: "round_half_even (z * 2 ^ 1074) = 0"
    by (rule round_half_even_near) (simp_all add: z)
  have "fl64_ieee z = Some 0"
    by (simp only: fl64_ieee_def 1 2 3 if_False if_True of_int_0 div_0)
  then have m: "fmul_f64 (Some (1 / 2 ^ 600)) (Some (1 / 2 ^ 600)) = Some 0"
    by (simp only: fmul_f64_def option.case z_def)
  have ad: "fadd_f64 (Some 0) (Some 0) = Some 0"
    by (simp only: fadd_f64_def option.case add_0_left fl64_ieee_zero)
  have rt: "fsqrt_f64 (Some 0) = Some 0"
    by (simp only: fsqrt_f64_def option.case less_irrefl if_False real_sqrt_zero fl64_ieee_zero)
  show ?thesis
    by (simp only: radius_f64_def m ad rt)
qed




end
